theory Spec2Isabelle
  imports Main "HOL-Library.AList"
begin

section \<open>Swagger generation for service descriptions (swagger/swagger.go)\<close>

text \<open>
  A shallow embedding of \<^verbatim>\<open>swagger.go\<close>. Go strings are byte sequences and are
  modelled as \<^typ>\<open>string\<close>; a panic of the Go runtime is the value \<open>Inl\<close> of a sum;
  unbounded recursion is bounded by a fuel argument (the depth of the call stack) and
  running out of it is the value \<open>None\<close>.
\<close>

subsection \<open>Panics\<close>

datatype panic =
    SliceOutOfRange
  | ZeroValueType       \<comment> \<open>\<^verbatim>\<open>reflect: call of reflect.Value.Type on zero Value\<close>\<close>
  | NumFieldOfNonStruct \<comment> \<open>\<^verbatim>\<open>reflect: NumField of non-struct type\<close>\<close>
  | ElemOfInvalidType   \<comment> \<open>\<^verbatim>\<open>reflect: Elem of invalid type\<close>\<close>
  | NilDereference      \<comment> \<open>\<^verbatim>\<open>invalid memory address or nil pointer dereference\<close>\<close>

subsection \<open>The functions of package strings that the generator calls\<close>

text \<open>
  \<^verbatim>\<open>strings.Split(s, sep)\<close> for a separator of one byte: the pieces between the
  occurrences of the separator, one more piece than there are separators.
\<close>

fun Split :: "string \<Rightarrow> char \<Rightarrow> string list" where
  "Split [] sep = [[]]"
| "Split (c # s) sep =
     (if c = sep then [] # Split s sep
      else (case Split s sep of [] \<Rightarrow> [[c]] | p # ps \<Rightarrow> (c # p) # ps))"

definition HasPrefix :: "string \<Rightarrow> string \<Rightarrow> bool" where
  "HasPrefix s pre = (take (length pre) s = pre)"

definition TrimPrefix :: "string \<Rightarrow> string \<Rightarrow> string" where
  "TrimPrefix s pre = (if HasPrefix s pre then drop (length pre) s else s)"

text \<open>\<^verbatim>\<open>strings.Join(elems, sep)\<close>.\<close>

fun Join :: "string list \<Rightarrow> string \<Rightarrow> string" where
  "Join [] sep = []"
| "Join [e] sep = e"
| "Join (e # es) sep = e @ sep @ Join es sep"

text \<open>
  \<^verbatim>\<open>strings.TrimSpace\<close> removes the leading and the trailing white space, as
  \<^verbatim>\<open>unicode.IsSpace\<close> defines it, from the UTF-8 text of the string: the runes
  U+0009 to U+000D, U+0020, U+0085, U+00A0, U+1680, U+2000 to U+200A, U+2028, U+2029,
  U+202F, U+205F and U+3000. \<open>spaceRunes\<close> are their encodings. At the front a rune is
  decoded from the first bytes, at the back the last rune is decoded from the last
  bytes; the first byte of an encoding of more than one byte (C2, E1, E2, E3) is never a
  continuation byte, so a string begins (ends) with a white space rune exactly when it
  begins (ends) with one of the encodings. Bytes that are no valid UTF-8 decode to
  U+FFFD, which is no white space, and stay.
\<close>

definition spaceRunes :: "string list" where
  "spaceRunes =
     [[CHR 0x09], [CHR 0x0A], [CHR 0x0B], [CHR 0x0C], [CHR 0x0D], [CHR 0x20],
      [CHR 0xC2, CHR 0x85], [CHR 0xC2, CHR 0xA0],
      [CHR 0xE1, CHR 0x9A, CHR 0x80],
      [CHR 0xE2, CHR 0x80, CHR 0x80], [CHR 0xE2, CHR 0x80, CHR 0x81],
      [CHR 0xE2, CHR 0x80, CHR 0x82], [CHR 0xE2, CHR 0x80, CHR 0x83],
      [CHR 0xE2, CHR 0x80, CHR 0x84], [CHR 0xE2, CHR 0x80, CHR 0x85],
      [CHR 0xE2, CHR 0x80, CHR 0x86], [CHR 0xE2, CHR 0x80, CHR 0x87],
      [CHR 0xE2, CHR 0x80, CHR 0x88], [CHR 0xE2, CHR 0x80, CHR 0x89],
      [CHR 0xE2, CHR 0x80, CHR 0x8A],
      [CHR 0xE2, CHR 0x80, CHR 0xA8], [CHR 0xE2, CHR 0x80, CHR 0xA9],
      [CHR 0xE2, CHR 0x80, CHR 0xAF],
      [CHR 0xE2, CHR 0x81, CHR 0x9F],
      [CHR 0xE3, CHR 0x80, CHR 0x80]]"

text \<open>
  The number of bytes of the white space rune that the string begins with (\<open>ends\<close>
  false) or ends with (\<open>ends\<close> true), if there is one.
\<close>

definition spaceWidth :: "bool \<Rightarrow> string \<Rightarrow> nat option" where
  "spaceWidth ends s =
     map_option length
       (find (\<lambda>r. if ends then HasPrefix (rev s) (rev r) else HasPrefix s r) spaceRunes)"

text \<open>\<^verbatim>\<open>TrimLeftFunc(s, unicode.IsSpace)\<close> and \<^verbatim>\<open>TrimRightFunc(s, unicode.IsSpace)\<close>.\<close>

fun TrimLeftSpace :: "nat \<Rightarrow> string \<Rightarrow> string" where
  "TrimLeftSpace 0 s = s"
| "TrimLeftSpace (Suc n) s =
     (case spaceWidth False s of None \<Rightarrow> s | Some w \<Rightarrow> TrimLeftSpace n (drop w s))"

fun TrimRightSpace :: "nat \<Rightarrow> string \<Rightarrow> string" where
  "TrimRightSpace 0 s = s"
| "TrimRightSpace (Suc n) s =
     (case spaceWidth True s of None \<Rightarrow> s | Some w \<Rightarrow> TrimRightSpace n (take (length s - w) s))"

text \<open>
  The loops run once for each white space rune, at most once for each byte of the
  string.
\<close>

definition TrimSpace :: "string \<Rightarrow> string" where
  "TrimSpace s = (let s1 = TrimLeftSpace (length s) s in TrimRightSpace (length s1) s1)"

text \<open>
  \<^verbatim>\<open>strings.ToUpper\<close> maps every rune of the UTF-8 text by \<^verbatim>\<open>unicode.ToUpper\<close>.
  The generator compares the result with the names of five HTTP methods, which are
  ASCII. The runes whose upper case is an ASCII letter are \<open>a\<close> to \<open>z\<close>, U+017F (upper
  case \<open>S\<close>, encoded C5 BF) and U+0131 (upper case \<open>I\<close>, encoded C4 B1); C4 and C5 are
  never continuation bytes, so these two runes are where their bytes are. The case
  tables of Unicode for the other runes are not part of this development: their bytes,
  and bytes that are no valid UTF-8, are left as they are, where
  \<^verbatim>\<open>strings.ToUpper\<close> gives other bytes outside ASCII. So \<open>ToUpper s\<close> is the result of
  \<^verbatim>\<open>strings.ToUpper\<close> whenever one of the two is ASCII text.
\<close>

definition toUpperChar :: "char \<Rightarrow> char" where
  "toUpperChar c =
     (let n = (of_char c :: nat) in if 97 \<le> n \<and> n \<le> 122 then char_of (n - 32) else c)"

fun ToUpper :: "string \<Rightarrow> string" where
  "ToUpper [] = []"
| "ToUpper [c] = [toUpperChar c]"
| "ToUpper (c # d # s) =
     (if c = CHR 0xC5 \<and> d = CHR 0xBF then CHR ''S'' # ToUpper s
      else if c = CHR 0xC4 \<and> d = CHR 0xB1 then CHR ''I'' # ToUpper s
      else toUpperChar c # ToUpper (d # s))"

declare ToUpper.simps [simp del]

text \<open>The slice expression \<^verbatim>\<open>p[i:]\<close> of a string: it panics when \<open>i\<close> exceeds the length.\<close>

definition slice_from :: "string \<Rightarrow> nat \<Rightarrow> panic + string" where
  "slice_from p i = (if i \<le> length p then Inr (drop i p) else Inl SliceOutOfRange)"

subsection \<open>replacePath\<close>

text \<open>
  The loop of \<^verbatim>\<open>replacePath\<close> over the pieces of the path: \<open>idx\<close> is the index of
  the piece, \<open>sb\<close> the contents of the string builder.
\<close>

fun replacePath_loop :: "nat \<Rightarrow> string list \<Rightarrow> string \<Rightarrow> panic + string" where
  "replacePath_loop idx [] sb = Inr sb"
| "replacePath_loop idx (p # ps) sb =
     (let sb1 = (if idx > 0 then sb @ [CHR ''/''] else sb) in
      if HasPrefix p '':'' then
        (case slice_from p 1 of
           Inl e \<Rightarrow> Inl e
         | Inr nm \<Rightarrow> replacePath_loop (idx + 1) ps (sb1 @ [CHR ''{''] @ nm @ [CHR ''}'']))
      else replacePath_loop (idx + 1) ps (sb1 @ p))"

definition replacePath :: "string \<Rightarrow> panic + string" where
  "replacePath path = replacePath_loop 0 (Split path CHR ''/'') []"

text \<open>What the claim about \<^verbatim>\<open>replacePath\<close> says of one piece of the path.\<close>

definition placeholder :: "string \<Rightarrow> string" where
  "placeholder p = (if HasPrefix p '':'' then ''{'' @ drop 1 p @ ''}'' else p)"

subsection \<open>Types as package reflect shows them\<close>

datatype kind =
    InvalidK | BoolK | IntK | Int8K | Int16K | Int32K | Int64K
  | UintK | Uint8K | Uint16K | Uint32K | Uint64K | UintptrK
  | Float32K | Float64K | Complex64K | Complex128K
  | ArrayK | ChanK | FuncK | InterfaceK | MapK | PtrK | SliceK | StringK | StructK
  | UnsafePointerK

text \<open>\<^verbatim>\<open>Kind.String()\<close>.\<close>

fun kind_String :: "kind \<Rightarrow> string" where
  "kind_String InvalidK = ''invalid''"
| "kind_String BoolK = ''bool''"
| "kind_String IntK = ''int''"
| "kind_String Int8K = ''int8''"
| "kind_String Int16K = ''int16''"
| "kind_String Int32K = ''int32''"
| "kind_String Int64K = ''int64''"
| "kind_String UintK = ''uint''"
| "kind_String Uint8K = ''uint8''"
| "kind_String Uint16K = ''uint16''"
| "kind_String Uint32K = ''uint32''"
| "kind_String Uint64K = ''uint64''"
| "kind_String UintptrK = ''uintptr''"
| "kind_String Float32K = ''float32''"
| "kind_String Float64K = ''float64''"
| "kind_String Complex64K = ''complex64''"
| "kind_String Complex128K = ''complex128''"
| "kind_String ArrayK = ''array''"
| "kind_String ChanK = ''chan''"
| "kind_String FuncK = ''func''"
| "kind_String InterfaceK = ''interface''"
| "kind_String MapK = ''map''"
| "kind_String PtrK = ''ptr''"
| "kind_String SliceK = ''slice''"
| "kind_String StringK = ''string''"
| "kind_String StructK = ''struct''"
| "kind_String UnsafePointerK = ''unsafe.Pointer''"

text \<open>
  A struct type is named by its identity, and the declarations of the program's struct
  types are a table from identities to declarations: two struct types may carry the same
  name (in two packages), and a struct type may mention itself behind a pointer or a
  slice. \<open>Basic k n\<close> is a type of kind \<open>k\<close> and name \<open>n\<close> that is neither a pointer,
  nor a slice, nor a struct; with one of these three kinds it stands for no type of the
  program, and \<open>Kind\<close> gives it the kind \<^verbatim>\<open>Invalid\<close>. A pointer type that is its
  own element type (\<^verbatim>\<open>type P *P\<close>) has no value here.
\<close>

type_synonym type_id = nat

datatype rtype =
    Basic kind string
  | PtrTo rtype
  | SliceOf rtype
  | StructT type_id

text \<open>A struct field: its tag, as the list of its keys and values, and its type.\<close>

record struct_field =
  Tag :: "(string \<times> string) list"
  Type :: rtype

record struct_decl =
  declName :: string
  declFields :: "struct_field list"

type_synonym types = "type_id \<Rightarrow> struct_decl"

fun Kind :: "rtype \<Rightarrow> kind" where
  "Kind (Basic k n) =
     (case k of PtrK \<Rightarrow> InvalidK | SliceK \<Rightarrow> InvalidK | StructK \<Rightarrow> InvalidK | _ \<Rightarrow> k)"
| "Kind (PtrTo t) = PtrK"
| "Kind (SliceOf t) = SliceK"
| "Kind (StructT i) = StructK"

fun Name :: "types \<Rightarrow> rtype \<Rightarrow> string" where
  "Name \<Gamma> (Basic k n) = n"
| "Name \<Gamma> (PtrTo t) = []"
| "Name \<Gamma> (SliceOf t) = []"
| "Name \<Gamma> (StructT i) = declName (\<Gamma> i)"

fun Elem :: "rtype \<Rightarrow> panic + rtype" where
  "Elem (PtrTo t) = Inr t"
| "Elem (SliceOf t) = Inr t"
| "Elem t = Inl ElemOfInvalidType"

text \<open>
  The fields that \<^verbatim>\<open>NumField\<close> and \<^verbatim>\<open>Field(i)\<close> enumerate; both panic on a type
  that is not a struct.
\<close>

fun Fields :: "types \<Rightarrow> rtype \<Rightarrow> panic + struct_field list" where
  "Fields \<Gamma> (StructT i) = Inr (declFields (\<Gamma> i))"
| "Fields \<Gamma> t = Inl NumFieldOfNonStruct"

text \<open>\<^verbatim>\<open>StructTag.Get(key)\<close>: the value of the first entry for the key, or the empty string.\<close>

definition Tag_Get :: "(string \<times> string) list \<Rightarrow> string \<Rightarrow> string" where
  "Tag_Get tag key = (case map_of tag key of None \<Rightarrow> [] | Some v \<Rightarrow> v)"

text \<open>
  A value held in an \<^verbatim>\<open>interface{}\<close>, as far as
  \<^verbatim>\<open>reflect.Indirect(reflect.ValueOf(v)).Type()\<close> looks at it: the nil interface, a
  nil pointer to a type, or any other value of a type.
\<close>

datatype go_value = Nil | NilPtr rtype | ValueOf rtype

fun Indirect_Type :: "go_value \<Rightarrow> panic + rtype" where
  "Indirect_Type Nil = Inl ZeroValueType"
| "Indirect_Type (NilPtr t) = Inl ZeroValueType"
| "Indirect_Type (ValueOf (PtrTo t)) = Inr t"
| "Indirect_Type (ValueOf t) = Inr t"

subsection \<open>The objects of package go-openapi/spec that the generator builds\<close>

datatype schema =
  Schema (sType: "string list") (sFormat: string) (sRef: string)
         (sItems: "schema option") (sProperties: "(string \<times> schema) list")

definition emptySchema :: schema where
  "emptySchema = Schema [] [] [] None []"

definition Typed :: "schema \<Rightarrow> string \<Rightarrow> string \<Rightarrow> schema" where
  "Typed s t f = Schema [t] f (sRef s) (sItems s) (sProperties s)"

definition StringProperty :: schema where
  "StringProperty = Schema [''string''] [] [] None []"

definition BoolProperty :: schema where
  "BoolProperty = Schema [''boolean''] [] [] None []"

definition Int8Property :: schema where
  "Int8Property = Schema [''integer''] ''int8'' [] None []"

definition Int32Property :: schema where
  "Int32Property = Schema [''integer''] ''int32'' [] None []"

definition Int64Property :: schema where
  "Int64Property = Schema [''integer''] ''int64'' [] None []"

definition Float32Property :: schema where
  "Float32Property = Schema [''number''] ''float'' [] None []"

definition Float64Property :: schema where
  "Float64Property = Schema [''number''] ''double'' [] None []"

definition ArrayProperty :: "schema \<Rightarrow> schema" where
  "ArrayProperty items = Schema [''array''] [] [] (Some items) []"

definition RefProperty :: "string \<Rightarrow> schema" where
  "RefProperty name = Schema [] [] name None []"

text \<open>\<^verbatim>\<open>SetProperty\<close> stores into the map of properties: a name has one entry.\<close>

definition SetProperty :: "schema \<Rightarrow> string \<Rightarrow> schema \<Rightarrow> schema" where
  "SetProperty s name sch =
     Schema (sType s) (sFormat s) (sRef s) (sItems s) (AList.update name sch (sProperties s))"

definition definitionsRef :: "string \<Rightarrow> string" where
  "definitionsRef name = ''#/definitions/'' @ name"

record parameter =
  pName :: string
  pIn :: string
  pRequired :: bool
  pAllowEmptyValue :: bool
  pType :: string
  pFormat :: string
  pSchema :: "schema option"
  pDefault :: "string option"

definition newParameter :: "string \<Rightarrow> string \<Rightarrow> parameter" where
  "newParameter name loc =
     \<lparr>pName = name, pIn = loc, pRequired = False, pAllowEmptyValue = False,
      pType = [], pFormat = [], pSchema = None, pDefault = None\<rparr>"

definition QueryParam :: "string \<Rightarrow> parameter" where
  "QueryParam name = newParameter name ''query''"

definition PathParam :: "string \<Rightarrow> parameter" where
  "PathParam name = (newParameter name ''path'')\<lparr>pRequired := True\<rparr>"

definition BodyParam :: "string \<Rightarrow> schema \<Rightarrow> parameter" where
  "BodyParam name sch = (newParameter name ''body'')\<lparr>pSchema := Some sch\<rparr>"

definition AsRequired :: "parameter \<Rightarrow> parameter" where
  "AsRequired p = (if pDefault p \<noteq> None then p else p\<lparr>pRequired := True\<rparr>)"

definition NoEmptyValues :: "parameter \<Rightarrow> parameter" where
  "NoEmptyValues p = p\<lparr>pAllowEmptyValue := False\<rparr>"

definition pTyped :: "parameter \<Rightarrow> string \<Rightarrow> string \<Rightarrow> parameter" where
  "pTyped p t f = p\<lparr>pType := t, pFormat := f\<rparr>"

record response =
  rDescription :: string
  rSchema :: "schema option"

definition NewResponse :: response where
  "NewResponse = \<lparr>rDescription = [], rSchema = None\<rparr>"

definition WithSchema :: "response \<Rightarrow> schema \<Rightarrow> response" where
  "WithSchema r sch = r\<lparr>rSchema := Some sch\<rparr>"

definition WithDescription :: "response \<Rightarrow> string \<Rightarrow> response" where
  "WithDescription r d = r\<lparr>rDescription := d\<rparr>"

record responses =
  Default :: "response option"
  StatusCodeResponses :: "int \<rightharpoonup> response"

record operation =
  opID :: string
  opTags :: "string list"
  opProduces :: "string list"
  opConsumes :: "string list"
  opParameters :: "parameter list"
  opResponses :: "responses option"

definition NewOperation :: "string \<Rightarrow> operation" where
  "NewOperation opid =
     \<lparr>opID = opid, opTags = [], opProduces = [], opConsumes = [], opParameters = [],
      opResponses = None\<rparr>"

text \<open>
  \<^verbatim>\<open>RespondsWith(code, response)\<close> with a response that is not nil: the code 0 sets
  the default response, any other code its entry of the map.
\<close>

definition RespondsWith :: "operation \<Rightarrow> int \<Rightarrow> response \<Rightarrow> operation" where
  "RespondsWith o' code r =
     (let rs = (case opResponses o' of
                  None \<Rightarrow> \<lparr>Default = None, StatusCodeResponses = Map.empty\<rparr>
                | Some rs \<Rightarrow> rs)
      in if code = 0 then o'\<lparr>opResponses := Some (rs\<lparr>Default := Some r\<rparr>)\<rparr>
         else o'\<lparr>opResponses :=
                  Some (rs\<lparr>StatusCodeResponses := (StatusCodeResponses rs)(code \<mapsto> r)\<rparr>)\<rparr>)"

text \<open>
  \<^verbatim>\<open>AddParam(param)\<close>: nil is ignored; a parameter of the same name and location is
  replaced where it stands; any other parameter is appended.
\<close>

fun replaceParam :: "parameter \<Rightarrow> parameter list \<Rightarrow> parameter list option" where
  "replaceParam param [] = None"
| "replaceParam param (p # ps) =
     (if pName p = pName param \<and> pIn p = pIn param then Some (param # ps)
      else map_option ((#) p) (replaceParam param ps))"

definition AddParam :: "operation \<Rightarrow> parameter option \<Rightarrow> operation" where
  "AddParam o' param =
     (case param of
        None \<Rightarrow> o'
      | Some p \<Rightarrow>
          (case replaceParam p (opParameters o') of
             Some ps \<Rightarrow> o'\<lparr>opParameters := ps\<rparr>
           | None \<Rightarrow> o'\<lparr>opParameters := opParameters o' @ [p]\<rparr>))"

record tag =
  tName :: string
  tDescription :: string

definition NewTag :: "string \<Rightarrow> string \<Rightarrow> tag" where
  "NewTag name description = \<lparr>tName = name, tDescription = description\<rparr>"

text \<open>
  A path item holds pointers to operations. \<open>'a\<close> is what stands for an operation: an
  address of the store in the document under construction, the operation itself in the
  document as the encoder reads it.
\<close>

record 'a path_item =
  Get :: "'a option"
  Put :: "'a option"
  Post :: "'a option"
  Delete :: "'a option"
  Patch :: "'a option"

definition emptyPathItem :: "'a path_item" where
  "emptyPathItem = \<lparr>Get = None, Put = None, Post = None, Delete = None, Patch = None\<rparr>"

record info =
  Description :: string
  Title :: string
  Version :: string

text \<open>
  \<^verbatim>\<open>spec.Swagger\<close>, with the store of the operations that \<^verbatim>\<open>NewOperation\<close> has
  allocated: an operation is mutated through its pointer after the pointer has been put
  into a path item, so a path item holds the address (the index into \<open>Store\<close>).
\<close>

record swagger =
  Swagger :: string
  Info :: info
  Schemes :: "string list"
  Tags :: "tag list"
  Paths :: "(string \<rightharpoonup> nat path_item) option"
  Definitions :: "(string \<rightharpoonup> schema) option"
  Store :: "operation list"

record swaggerGen =
  sg_s :: swagger
  tagName :: string

definition NewSwagger :: "string \<Rightarrow> string \<Rightarrow> string \<Rightarrow> swaggerGen" where
  "NewSwagger title ver desc =
     \<lparr>sg_s = \<lparr>Swagger = ''2.0'',
               Info = \<lparr>Description = desc, Title = title, Version = ver\<rparr>,
               Schemes = [''http'', ''https''],
               Tags = [], Paths = None, Definitions = None, Store = []\<rparr>,
      tagName = []\<rparr>"

definition WithTag :: "swaggerGen \<Rightarrow> string \<Rightarrow> swaggerGen" where
  "WithTag sg name = sg\<lparr>tagName := name\<rparr>"

subsection \<open>Results of the generator's functions\<close>

text \<open>
  \<open>None\<close>: the call stack is used up; \<open>Some (Inl e)\<close>: a panic; \<open>Some (Inr x)\<close>: the
  function returns.
\<close>

type_synonym 'a result = "(panic + 'a) option"

definition andThen :: "'a result \<Rightarrow> ('a \<Rightarrow> 'b result) \<Rightarrow> 'b result" where
  "andThen m f = (case m of None \<Rightarrow> None | Some (Inl e) \<Rightarrow> Some (Inl e) | Some (Inr x) \<Rightarrow> f x)"

definition lift :: "panic + 'a \<Rightarrow> 'a result" where
  "lift r = Some r"

subsection \<open>addDefinition\<close>

text \<open>
  The first switch of the loop body chooses \<^verbatim>\<open>wrapFunc\<close> and the type the second
  switch looks at.
\<close>

definition wrapSwitch :: "rtype \<Rightarrow> panic + rtype \<times> (schema \<Rightarrow> schema)" where
  "wrapSwitch fType =
     (case Kind fType of
        PtrK \<Rightarrow> (case Elem fType of Inl e \<Rightarrow> Inl e | Inr t \<Rightarrow> Inr (t, \<lambda>schema. schema))
      | SliceK \<Rightarrow> (case Elem fType of Inl e \<Rightarrow> Inl e | Inr t \<Rightarrow> Inr (t, \<lambda>item. ArrayProperty item))
      | _ \<Rightarrow> Inr (fType, \<lambda>schema. schema))"

text \<open>
  The switch labelled \<^verbatim>\<open>Switch\<close>: the schema it hands to \<^verbatim>\<open>wrapFunc\<close>, and the
  struct type it registers, if any. The case \<^verbatim>\<open>reflect.Ptr\<close> takes the element type
  and jumps back to the label. The notice that the default case prints is not modelled.
\<close>

fun Switch :: "types \<Rightarrow> rtype \<Rightarrow> panic + schema \<times> rtype option" where
  "Switch \<Gamma> (PtrTo t) = Switch \<Gamma> t"
| "Switch \<Gamma> t =
     (case Kind t of
        StringK \<Rightarrow> Inr (StringProperty, None)
      | Int8K \<Rightarrow> Inr (ArrayProperty Int8Property, None)
      | Uint8K \<Rightarrow> Inr (ArrayProperty Int8Property, None)
      | Int32K \<Rightarrow> Inr (Int32Property, None)
      | Uint32K \<Rightarrow> Inr (Int32Property, None)
      | IntK \<Rightarrow> Inr (Int64Property, None)
      | UintK \<Rightarrow> Inr (Int64Property, None)
      | Int64K \<Rightarrow> Inr (Int64Property, None)
      | Uint64K \<Rightarrow> Inr (Int64Property, None)
      | Float32K \<Rightarrow> Inr (Float32Property, None)
      | Float64K \<Rightarrow> Inr (Float64Property, None)
      | StructK \<Rightarrow> Inr (RefProperty (definitionsRef (Name \<Gamma> t)), Some t)
      | BoolK \<Rightarrow> Inr (BoolProperty, None)
      | InterfaceK \<Rightarrow> Inr (Typed emptySchema ''object'' [], None)
      | PtrK \<Rightarrow> (case Elem t of Inl e \<Rightarrow> Inl e | Inr t' \<Rightarrow> Inl ElemOfInvalidType)
      | _ \<Rightarrow> Inr (StringProperty, None))"

text \<open>The name of the property: the tag value up to its first comma, if it has one.\<close>

definition propertyName :: "string \<Rightarrow> string" where
  "propertyName fName =
     (case Split fName CHR '','' of
        p # q # ps \<Rightarrow> TrimSpace p
      | _ \<Rightarrow> fName)"

text \<open>
  The loop over the fields. \<open>rec\<close> is the recursive call \<^verbatim>\<open>sg.addDefinition\<close>;
  \<open>swag\<close> is the document and \<open>def\<close> the schema under construction.
\<close>

fun addDefinition_fields ::
  "(swagger \<Rightarrow> rtype \<Rightarrow> swagger result) \<Rightarrow> string \<Rightarrow> types \<Rightarrow> struct_field list
     \<Rightarrow> swagger \<Rightarrow> schema \<Rightarrow> (swagger \<times> schema) result" where
  "addDefinition_fields rec tag \<Gamma> [] swag def = Some (Inr (swag, def))"
| "addDefinition_fields rec tag \<Gamma> (f # fs) swag def =
     (let fType = Type f; fName = Tag_Get (Tag f) tag in
      if fName = [] then addDefinition_fields rec tag \<Gamma> fs swag def
      else
        let fName = propertyName fName in
        andThen (lift (wrapSwitch fType)) (\<lambda>(fType, wrapFunc).
        andThen (lift (Switch \<Gamma> fType)) (\<lambda>(item, nested).
          let def = SetProperty def fName (wrapFunc item) in
          (case nested of
             None \<Rightarrow> addDefinition_fields rec tag \<Gamma> fs swag def
           | Some t \<Rightarrow>
               andThen (rec swag t) (\<lambda>swag. addDefinition_fields rec tag \<Gamma> fs swag def)))))"

definition addDefinition_body ::
  "(swagger \<Rightarrow> rtype \<Rightarrow> swagger result) \<Rightarrow> string \<Rightarrow> types \<Rightarrow> swagger \<Rightarrow> rtype
     \<Rightarrow> swagger result" where
  "addDefinition_body rec tag \<Gamma> swag rType =
     andThen (lift (if Kind rType = PtrK then Elem rType else Inr rType)) (\<lambda>rType.
       let swag = (if Definitions swag = None then swag\<lparr>Definitions := Some Map.empty\<rparr>
                   else swag);
           def = Typed emptySchema ''object'' []
       in
       andThen (lift (Fields \<Gamma> rType)) (\<lambda>fs.
       andThen (addDefinition_fields rec tag \<Gamma> fs swag def) (\<lambda>(swag, def).
         (case Definitions swag of
            None \<Rightarrow> Some (Inl NilDereference)
          | Some defs \<Rightarrow> Some (Inr (swag\<lparr>Definitions := Some (defs(Name \<Gamma> rType \<mapsto> def))\<rparr>))))))"

text \<open>
  \<^verbatim>\<open>addDefinition\<close>, with the depth of the call stack that is left as its first
  argument; of the receiver it reads the tag name only.
\<close>

primrec addDefinition :: "nat \<Rightarrow> string \<Rightarrow> types \<Rightarrow> swagger \<Rightarrow> rtype \<Rightarrow> swagger result" where
  "addDefinition 0 tag \<Gamma> = (\<lambda>swag rType. None)"
| "addDefinition (Suc n) tag \<Gamma> = addDefinition_body (addDefinition n tag \<Gamma>) tag \<Gamma>"

subsection \<open>setParameter and setInput\<close>

definition setParameter :: "parameter \<Rightarrow> rtype \<Rightarrow> panic + parameter option" where
  "setParameter p t =
     (let kind = Kind t in
      case kind of
        SliceK \<Rightarrow>
          (case Elem t of
             Inl e \<Rightarrow> Inl e
           | Inr el \<Rightarrow>
               (case Kind el of
                  StringK \<Rightarrow> Inr (Some (pTyped p ''string'' (kind_String kind)))
                | Float64K \<Rightarrow> Inr (Some (pTyped p ''number'' (kind_String kind)))
                | Float32K \<Rightarrow> Inr (Some (pTyped p ''number'' (kind_String kind)))
                | Int8K \<Rightarrow> Inr (Some (pTyped p ''integer'' ''int8''))
                | Uint8K \<Rightarrow> Inr (Some (pTyped p ''integer'' ''int8''))
                | Int32K \<Rightarrow> Inr (Some (pTyped p ''integer'' ''int32''))
                | Uint32K \<Rightarrow> Inr (Some (pTyped p ''integer'' ''int32''))
                | IntK \<Rightarrow> Inr (Some (pTyped p ''integer'' ''int64''))
                | Int64K \<Rightarrow> Inr (Some (pTyped p ''integer'' ''int64''))
                | UintK \<Rightarrow> Inr (Some (pTyped p ''integer'' ''int64''))
                | Uint64K \<Rightarrow> Inr (Some (pTyped p ''integer'' ''int64''))
                | _ \<Rightarrow> Inr None))
      | StringK \<Rightarrow> Inr (Some (pTyped p ''string'' (kind_String kind)))
      | Float64K \<Rightarrow> Inr (Some (pTyped p ''number'' (kind_String kind)))
      | Float32K \<Rightarrow> Inr (Some (pTyped p ''number'' (kind_String kind)))
      | Int8K \<Rightarrow> Inr (Some (pTyped p ''integer'' ''int8''))
      | Uint8K \<Rightarrow> Inr (Some (pTyped p ''integer'' ''int8''))
      | Int32K \<Rightarrow> Inr (Some (pTyped p ''integer'' ''int32''))
      | Uint32K \<Rightarrow> Inr (Some (pTyped p ''integer'' ''int32''))
      | IntK \<Rightarrow> Inr (Some (pTyped p ''integer'' ''int64''))
      | Int64K \<Rightarrow> Inr (Some (pTyped p ''integer'' ''int64''))
      | UintK \<Rightarrow> Inr (Some (pTyped p ''integer'' ''int64''))
      | Uint64K \<Rightarrow> Inr (Some (pTyped p ''integer'' ''int64''))
      | _ \<Rightarrow> Inr None)"

text \<open>The first loop of \<^verbatim>\<open>setInput\<close>: the names of the path parameters.\<close>

fun pathParams_loop :: "string list \<Rightarrow> string list \<Rightarrow> string list" where
  "pathParams_loop [] pathParams = pathParams"
| "pathParams_loop (pp # pps) pathParams =
     (if \<not> HasPrefix pp '':'' then pathParams_loop pps pathParams
      else pathParams_loop pps (pathParams @ [TrimPrefix pp '':'']))"

text \<open>The inner loop: whether the tag name is among the path parameters.\<close>

definition found_loop :: "string \<Rightarrow> string list \<Rightarrow> bool" where
  "found_loop fName pathParams =
     fold (\<lambda>pathParam found. if fName = pathParam then True else found) pathParams False"

text \<open>The loop over the fields of the input type.\<close>

fun setInput_fields ::
  "string \<Rightarrow> string list \<Rightarrow> struct_field list \<Rightarrow> operation \<Rightarrow> panic + operation" where
  "setInput_fields tag pathParams [] op = Inr op"
| "setInput_fields tag pathParams (f # fs) op =
     (let fName = Tag_Get (Tag f) tag in
      if fName = [] then setInput_fields tag pathParams fs op
      else if found_loop fName pathParams then
        (case setParameter (NoEmptyValues (AsRequired (PathParam fName))) (Type f) of
           Inl e \<Rightarrow> Inl e
         | Inr p \<Rightarrow> setInput_fields tag pathParams fs (AddParam op p))
      else
        (case setParameter (NoEmptyValues (AsRequired (QueryParam fName))) (Type f) of
           Inl e \<Rightarrow> Inl e
         | Inr p \<Rightarrow> setInput_fields tag pathParams fs (AddParam op p)))"

definition setInput :: "string \<Rightarrow> types \<Rightarrow> operation \<Rightarrow> string \<Rightarrow> rtype \<Rightarrow> panic + operation" where
  "setInput tag \<Gamma> op path inType =
     (case (if Kind inType = PtrK then Elem inType else Inr inType) of
        Inl e \<Rightarrow> Inl e
      | Inr inType \<Rightarrow>
          (let pathParams = pathParams_loop (Split path CHR ''/'') [] in
           case Fields \<Gamma> inType of
             Inl e \<Rightarrow> Inl e
           | Inr fs \<Rightarrow> setInput_fields tag pathParams fs op))"

subsection \<open>Services, contracts and addOperation\<close>

datatype selector =
    RESTRouteSelector (GetMethod: string) (GetPath: string)
  | OtherSelector

record possible_error =
  peCode :: int
  peItem :: string
  peMessage :: go_value

record contract =
  cName :: string
  cInput :: go_value
  cOutput :: go_value
  cPossibleErrors :: "possible_error list"
  cSelectors :: "selector list"

record service =
  svcName :: string
  svcContracts :: "contract list"

definition addTag :: "swagger \<Rightarrow> service \<Rightarrow> swagger" where
  "addTag swag sv = swag\<lparr>Tags := Tags swag @ [NewTag (svcName sv) []]\<rparr>"

text \<open>Reading and writing an operation through its pointer.\<close>

definition getOp :: "swagger \<Rightarrow> nat \<Rightarrow> panic + operation" where
  "getOp swag ref =
     (if ref < length (Store swag) then Inr (Store swag ! ref) else Inl NilDereference)"

definition setOp :: "swagger \<Rightarrow> nat \<Rightarrow> operation \<Rightarrow> swagger" where
  "setOp swag ref op = swag\<lparr>Store := (Store swag)[ref := op]\<rparr>"

definition allocOp :: "swagger \<Rightarrow> operation \<Rightarrow> swagger \<times> nat" where
  "allocOp swag op = (swag\<lparr>Store := Store swag @ [op]\<rparr>, length (Store swag))"

text \<open>
  The loop over the possible errors. \<open>addDef\<close> is \<^verbatim>\<open>sg.addDefinition\<close>, \<open>ref\<close> the
  pointer \<^verbatim>\<open>op\<close>, \<open>possibleErrors\<close> the map from a code to its items (no entry: no
  items).
\<close>

fun possibleErrors_loop ::
  "(swagger \<Rightarrow> rtype \<Rightarrow> swagger result) \<Rightarrow> types \<Rightarrow> nat \<Rightarrow> possible_error list
     \<Rightarrow> (int \<Rightarrow> string list) \<Rightarrow> swagger \<Rightarrow> swagger result" where
  "possibleErrors_loop addDef \<Gamma> ref [] possibleErrors swag = Some (Inr swag)"
| "possibleErrors_loop addDef \<Gamma> ref (pe # pes) possibleErrors swag =
     andThen (lift (Indirect_Type (peMessage pe))) (\<lambda>errType.
     andThen (addDef swag errType) (\<lambda>swag.
       let possibleErrors =
             possibleErrors(peCode pe := possibleErrors (peCode pe) @ [peItem pe]) in
       andThen (lift (getOp swag ref)) (\<lambda>op.
         let op = RespondsWith op (peCode pe)
                    (WithDescription
                       (WithSchema NewResponse (RefProperty (definitionsRef (Name \<Gamma> errType))))
                       (''Items: '' @ Join (possibleErrors (peCode pe)) '', ''))
         in possibleErrors_loop addDef \<Gamma> ref pes possibleErrors (setOp swag ref op))))"

text \<open>The switch on the method of a selector.\<close>

definition methodSwitch ::
  "types \<Rightarrow> nat \<Rightarrow> rtype \<Rightarrow> string \<Rightarrow> nat path_item \<Rightarrow> swagger
     \<Rightarrow> panic + nat path_item \<times> swagger" where
  "methodSwitch \<Gamma> ref inType method pathItem swag =
     (let withBody = (\<lambda>swag.
            case getOp swag ref of
              Inl e \<Rightarrow> Inl e
            | Inr op \<Rightarrow>
                Inr (setOp swag ref
                  (AddParam op
                    (Some (BodyParam (Name \<Gamma> inType)
                       (RefProperty (definitionsRef (Name \<Gamma> inType))))))))
      in
      if method = ''GET'' then Inr (pathItem\<lparr>Get := Some ref\<rparr>, swag)
      else if method = ''DELETE'' then Inr (pathItem\<lparr>Delete := Some ref\<rparr>, swag)
      else if method = ''POST'' then
        (case withBody swag of Inl e \<Rightarrow> Inl e | Inr swag \<Rightarrow> Inr (pathItem\<lparr>Post := Some ref\<rparr>, swag))
      else if method = ''PUT'' then
        (case withBody swag of Inl e \<Rightarrow> Inl e | Inr swag \<Rightarrow> Inr (pathItem\<lparr>Put := Some ref\<rparr>, swag))
      else if method = ''PATCH'' then
        (case withBody swag of Inl e \<Rightarrow> Inl e | Inr swag \<Rightarrow> Inr (pathItem\<lparr>Patch := Some ref\<rparr>, swag))
      else Inr (pathItem, swag))"

text \<open>The loop over the selectors of a contract.\<close>

fun selectors_loop ::
  "(swagger \<Rightarrow> rtype \<Rightarrow> swagger result) \<Rightarrow> string \<Rightarrow> types \<Rightarrow> nat \<Rightarrow> rtype \<Rightarrow> rtype
     \<Rightarrow> selector list \<Rightarrow> swagger \<Rightarrow> swagger result" where
  "selectors_loop addDef tag \<Gamma> ref inType outType [] swag = Some (Inr swag)"
| "selectors_loop addDef tag \<Gamma> ref inType outType (OtherSelector # sels) swag =
     selectors_loop addDef tag \<Gamma> ref inType outType sels swag"
| "selectors_loop addDef tag \<Gamma> ref inType outType (RESTRouteSelector method path # sels) swag =
     andThen (lift (getOp swag ref)) (\<lambda>op.
     andThen (lift (setInput tag \<Gamma> op path inType)) (\<lambda>op.
     andThen (addDef (setOp swag ref op) inType) (\<lambda>swag.
     andThen (addDef swag outType) (\<lambda>swag.
     andThen (lift (replacePath path)) (\<lambda>restPath.
       (case Paths swag of
          None \<Rightarrow> Some (Inl NilDereference)
        | Some paths \<Rightarrow>
            (let pathItem = (case paths restPath of None \<Rightarrow> emptyPathItem | Some i \<Rightarrow> i) in
             andThen (lift (methodSwitch \<Gamma> ref inType (ToUpper method) pathItem swag))
               (\<lambda>(pathItem, swag).
                  (case Paths swag of
                     None \<Rightarrow> Some (Inl NilDereference)
                   | Some paths \<Rightarrow>
                       selectors_loop addDef tag \<Gamma> ref inType outType sels
                         (swag\<lparr>Paths := Some (paths(restPath \<mapsto> pathItem))\<rparr>))))))))))"

definition addOperation ::
  "nat \<Rightarrow> string \<Rightarrow> types \<Rightarrow> swagger \<Rightarrow> string \<Rightarrow> contract \<Rightarrow> swagger result" where
  "addOperation fuel tag \<Gamma> swag serviceName c =
     (let swag = (if Paths swag = None then swag\<lparr>Paths := Some Map.empty\<rparr> else swag) in
      andThen (lift (Indirect_Type (cInput c))) (\<lambda>inType.
      andThen (lift (Indirect_Type (cOutput c))) (\<lambda>outType.
        let op = (RespondsWith (NewOperation (cName c)) 200
                    (WithSchema NewResponse (RefProperty (definitionsRef (Name \<Gamma> outType)))))
                 \<lparr>opTags := [serviceName],
                  opProduces := [''application/json''],
                  opConsumes := [''application/json'']\<rparr>;
            (swag, ref) = allocOp swag op
        in
        andThen (possibleErrors_loop (addDefinition fuel tag \<Gamma>) \<Gamma> ref (cPossibleErrors c)
                   (\<lambda>code. []) swag) (\<lambda>swag.
          selectors_loop (addDefinition fuel tag \<Gamma>) tag \<Gamma> ref inType outType
            (cSelectors c) swag))))"

subsection \<open>WriteTo and WriteToFile\<close>

fun contracts_loop ::
  "nat \<Rightarrow> string \<Rightarrow> types \<Rightarrow> string \<Rightarrow> contract list \<Rightarrow> swagger \<Rightarrow> swagger result" where
  "contracts_loop fuel tag \<Gamma> serviceName [] swag = Some (Inr swag)"
| "contracts_loop fuel tag \<Gamma> serviceName (c # cs) swag =
     andThen (addOperation fuel tag \<Gamma> swag serviceName c) (\<lambda>swag.
       contracts_loop fuel tag \<Gamma> serviceName cs swag)"

fun services_loop :: "nat \<Rightarrow> string \<Rightarrow> types \<Rightarrow> service list \<Rightarrow> swagger \<Rightarrow> swagger result" where
  "services_loop fuel tag \<Gamma> [] swag = Some (Inr swag)"
| "services_loop fuel tag \<Gamma> (sv # svs) swag =
     andThen (contracts_loop fuel tag \<Gamma> (svcName sv) (svcContracts sv) (addTag swag sv)) (\<lambda>swag.
       services_loop fuel tag \<Gamma> svs swag)"

text \<open>
  \<^verbatim>\<open>WriteTo\<close>. The encoder \<^verbatim>\<open>MarshalJSON\<close> and the writer are parameters:
  \<open>marshal\<close> gives the bytes of a document or an error, \<open>write\<close> takes the state of
  the destination and the bytes and gives the new state and the error, if any. The
  receiver is a copy of the generator, but its field \<^verbatim>\<open>s\<close> points to the one document
  of the generator: the result carries the error returned, the state of the destination
  and the generator as the call leaves it.
\<close>

definition WriteTo ::
  "(swagger \<Rightarrow> 'e + string) \<Rightarrow> ('w \<Rightarrow> string \<Rightarrow> 'w \<times> 'e option) \<Rightarrow> nat \<Rightarrow> types
     \<Rightarrow> swaggerGen \<Rightarrow> 'w \<Rightarrow> service list \<Rightarrow> ('e option \<times> 'w \<times> swaggerGen) result" where
  "WriteTo marshal write fuel \<Gamma> sg w services =
     andThen (services_loop fuel (tagName sg) \<Gamma> services (sg_s sg)) (\<lambda>swag.
       (case marshal swag of
          Inl err \<Rightarrow> Some (Inr (Some err, w, sg\<lparr>sg_s := swag\<rparr>))
        | Inr swaggerJSON \<Rightarrow>
            (let (w, err) = write w swaggerJSON in Some (Inr (err, w, sg\<lparr>sg_s := swag\<rparr>)))))"

text \<open>
  \<^verbatim>\<open>WriteToFile\<close>. \<open>create\<close> is \<^verbatim>\<open>os.Create\<close> on the state of the file system: an
  error, or the state in which the file exists and is empty; \<open>fwrite\<close> writes to the
  file of a name.
\<close>

definition WriteToFile ::
  "(swagger \<Rightarrow> 'e + string) \<Rightarrow> ('fs \<Rightarrow> string \<Rightarrow> 'e + 'fs)
     \<Rightarrow> (string \<Rightarrow> 'fs \<Rightarrow> string \<Rightarrow> 'fs \<times> 'e option) \<Rightarrow> nat \<Rightarrow> types
     \<Rightarrow> swaggerGen \<Rightarrow> 'fs \<Rightarrow> string \<Rightarrow> service list \<Rightarrow> ('e option \<times> 'fs \<times> swaggerGen) result" where
  "WriteToFile marshal create fwrite fuel \<Gamma> sg fs filename services =
     (case create fs filename of
        Inl err \<Rightarrow> Some (Inr (Some err, fs, sg))
      | Inr fs \<Rightarrow> WriteTo marshal (fwrite filename) fuel \<Gamma> sg fs services)"

subsection \<open>Notions the properties are stated with\<close>

definition bufferTypes :: types where
  "bufferTypes i =
     \<lparr>declName = ''subRes'',
      declFields = [\<lparr>Tag = [(''json'', ''another'')], Type = SliceOf (Basic Uint8K ''uint8'')\<rparr>]\<rparr>"

definition selfRefTypes :: types where
  "selfRefTypes i =
     \<lparr>declName = ''Node'',
      declFields = [\<lparr>Tag = [(''json'', ''next'')], Type = PtrTo (StructT 0)\<rparr>]\<rparr>"

definition mutualTypes :: types where
  "mutualTypes i =
     (if i = 0 then
        \<lparr>declName = ''Parent'',
         declFields = [\<lparr>Tag = [(''json'', ''children'')], Type = SliceOf (StructT 1)\<rparr>]\<rparr>
      else
        \<lparr>declName = ''Child'',
         declFields = [\<lparr>Tag = [(''json'', ''parent'')], Type = PtrTo (StructT 0)\<rparr>]\<rparr>)"

definition nestedType :: "types \<Rightarrow> rtype \<Rightarrow> rtype option" where
  "nestedType \<Gamma> fType =
     (case wrapSwitch fType of
        Inl e \<Rightarrow> None
      | Inr (t, wrapFunc) \<Rightarrow> (case Switch \<Gamma> t of Inl e \<Rightarrow> None | Inr (item, nested) \<Rightarrow> nested))"

text \<open>The struct type behind any number of pointers.\<close>

fun structBehind :: "rtype \<Rightarrow> rtype option" where
  "structBehind (PtrTo t) = structBehind t"
| "structBehind (StructT i) = Some (StructT i)"
| "structBehind t = None"

text \<open>
  The struct type that a field of a type holds: the type itself, or the element type of
  a slice, behind any number of pointers.
\<close>

fun heldStruct :: "rtype \<Rightarrow> rtype option" where
  "heldStruct (SliceOf t) = structBehind t"
| "heldStruct t = structBehind t"

text \<open>
  The graph of the nested struct types: \<open>(u, t)\<close> when a tagged field of the struct type
  \<open>t\<close> holds the struct type \<open>u\<close>; the struct types reachable from a type; and the graph
  among those.
\<close>

definition nested_struct :: "string \<Rightarrow> types \<Rightarrow> (rtype \<times> rtype) set" where
  "nested_struct tag \<Gamma> =
     {(u, t). \<exists>i f. t = StructT i \<and> f \<in> set (declFields (\<Gamma> i)) \<and> Tag_Get (Tag f) tag \<noteq> []
                 \<and> heldStruct (Type f) = Some u}"

definition reachableTypes :: "string \<Rightarrow> types \<Rightarrow> rtype \<Rightarrow> rtype set" where
  "reachableTypes tag \<Gamma> t = {u. (u, t) \<in> (nested_struct tag \<Gamma>)\<^sup>*}"

definition nested_below :: "string \<Rightarrow> types \<Rightarrow> rtype \<Rightarrow> (rtype \<times> rtype) set" where
  "nested_below tag \<Gamma> t =
     {(u, v). (u, v) \<in> nested_struct tag \<Gamma> \<and> v \<in> reachableTypes tag \<Gamma> t}"

text \<open>The type whose fields \<^verbatim>\<open>addDefinition\<close> reads: it takes the element type of a pointer.\<close>

definition registeredType :: "rtype \<Rightarrow> rtype" where
  "registeredType t = (case t of PtrTo u \<Rightarrow> u | _ \<Rightarrow> t)"

definition returns :: "'a result \<Rightarrow> bool" where
  "returns r = (r \<noteq> None)"

text \<open>
  A program with the types \<^verbatim>\<open>sampleRes\<close> (a field and a slice of \<^verbatim>\<open>subRes\<close>),
  \<^verbatim>\<open>subRes\<close> and, apart from them, the self-referential \<^verbatim>\<open>Node\<close>.
\<close>

definition nestedTypes :: types where
  "nestedTypes i =
     (if i = 0 then
        \<lparr>declName = ''sampleRes'',
         declFields = [\<lparr>Tag = [(''json'', ''sub'')], Type = StructT 1\<rparr>,
                       \<lparr>Tag = [(''json'', ''subs'')], Type = SliceOf (StructT 1)\<rparr>]\<rparr>
      else if i = 1 then
        \<lparr>declName = ''subRes'',
         declFields = [\<lparr>Tag = [(''json'', ''some'')], Type = Basic StringK ''string''\<rparr>]\<rparr>
      else
        \<lparr>declName = ''Node'',
         declFields = [\<lparr>Tag = [(''json'', ''next'')], Type = PtrTo (StructT i)\<rparr>]\<rparr>)"

definition pathParamNames :: "string \<Rightarrow> string list" where
  "pathParamNames path = map (drop 1) (filter (\<lambda>pp. HasPrefix pp '':'') (Split path CHR ''/''))"

definition supportedKind :: "kind \<Rightarrow> bool" where
  "supportedKind k =
     (k \<in> {StringK, Float64K, Float32K, Int8K, Uint8K, Int32K, Uint32K, IntK, Int64K, UintK, Uint64K})"

definition supported :: "rtype \<Rightarrow> bool" where
  "supported t = (case t of SliceOf el \<Rightarrow> supportedKind (Kind el) | _ \<Rightarrow> supportedKind (Kind t))"

definition emittedFor :: "string \<Rightarrow> string \<Rightarrow> struct_field \<Rightarrow> parameter \<Rightarrow> bool" where
  "emittedFor tag path f p =
     (pName p = Tag_Get (Tag f) tag
      \<and> pIn p = (if Tag_Get (Tag f) tag \<in> set (pathParamNames path) then ''path'' else ''query'')
      \<and> pRequired p \<and> \<not> pAllowEmptyValue p)"

text \<open>the parameter of the loop body for a tagged field\<close>

definition fieldParam :: "string \<Rightarrow> string list \<Rightarrow> struct_field \<Rightarrow> panic + parameter option" where
  "fieldParam tag pathParams f =
     (let fName = Tag_Get (Tag f) tag in
      if fName = [] then Inr None
      else if found_loop fName pathParams
        then setParameter (NoEmptyValues (AsRequired (PathParam fName))) (Type f)
        else setParameter (NoEmptyValues (AsRequired (QueryParam fName))) (Type f))"

fun fieldsSchema :: "string \<Rightarrow> types \<Rightarrow> struct_field list \<Rightarrow> schema \<Rightarrow> schema" where
  "fieldsSchema tag \<Gamma> [] def = def"
| "fieldsSchema tag \<Gamma> (f # fs) def =
     (if Tag_Get (Tag f) tag = [] then fieldsSchema tag \<Gamma> fs def
      else
        (case wrapSwitch (Type f) of
           Inl e \<Rightarrow> def
         | Inr (t, wrapFunc) \<Rightarrow>
             (case Switch \<Gamma> t of
                Inl e \<Rightarrow> def
              | Inr (item, nested) \<Rightarrow>
                  fieldsSchema tag \<Gamma> fs
                    (SetProperty def (propertyName (Tag_Get (Tag f) tag)) (wrapFunc item)))))"

definition schemaOf :: "string \<Rightarrow> types \<Rightarrow> type_id \<Rightarrow> schema" where
  "schemaOf tag \<Gamma> i = fieldsSchema tag \<Gamma> (declFields (\<Gamma> i)) (Typed emptySchema ''object'' [])"

definition onlyDefinitions :: "swagger \<Rightarrow> swagger \<Rightarrow> bool" where
  "onlyDefinitions swag swag' = (\<exists>m. swag' = swag\<lparr>Definitions := Some m\<rparr>)"

definition operationAt :: "swagger \<Rightarrow> string \<Rightarrow> (nat path_item \<Rightarrow> nat option) \<Rightarrow> operation option" where
  "operationAt swag path slot =
     (case Paths swag of
        None \<Rightarrow> None
      | Some paths \<Rightarrow>
          (case paths path of
             None \<Rightarrow> None
           | Some pathItem \<Rightarrow>
               (case slot pathItem of
                  None \<Rightarrow> None
                | Some ref \<Rightarrow> (case getOp swag ref of Inl e \<Rightarrow> None | Inr op \<Rightarrow> Some op))))"

definition emptyTypes :: types where
  "emptyTypes i = \<lparr>declName = ''Req'', declFields = []\<rparr>"

definition postGetContract :: contract where
  "postGetContract =
     \<lparr>cName = ''item'', cInput = ValueOf (PtrTo (StructT 0)), cOutput = ValueOf (PtrTo (StructT 0)),
      cPossibleErrors = [],
      cSelectors = [RESTRouteSelector ''POST'' ''/item'', RESTRouteSelector ''GET'' ''/item'']\<rparr>"

definition flagTypes :: types where
  "flagTypes i =
     \<lparr>declName = ''flagReq'',
      declFields = [\<lparr>Tag = [(''json'', ''flag'')], Type = Basic BoolK ''bool''\<rparr>,
                    \<lparr>Tag = [(''json'', ''id'')], Type = Basic Int64K ''int64''\<rparr>,
                    \<lparr>Tag = [(''json'', ''q'')], Type = Basic StringK ''string''\<rparr>,
                    \<lparr>Tag = [], Type = Basic StringK ''string''\<rparr>]\<rparr>"



definition defsOf :: "swagger \<Rightarrow> (string \<rightharpoonup> schema)" where
  "defsOf swag = (case Definitions swag of None \<Rightarrow> Map.empty | Some m \<Rightarrow> m)"

text \<open>two results are of the same kind, and related when both return\<close>

definition sameOutcome :: "('a \<Rightarrow> 'b \<Rightarrow> bool) \<Rightarrow> 'a result \<Rightarrow> 'b result \<Rightarrow> bool" where
  "sameOutcome R r r' =
     (case r of
        None \<Rightarrow> r' = None
      | Some (Inl e) \<Rightarrow> r' = Some (Inl e)
      | Some (Inr x) \<Rightarrow> (\<exists>x'. r' = Some (Inr x') \<and> R x x'))"

definition overBase :: "(string \<rightharpoonup> schema) \<Rightarrow> swagger \<Rightarrow> swagger \<Rightarrow> bool" where
  "overBase D a b = (defsOf b = D ++ defsOf a)"

text \<open>Registering a type \<open>k\<close> times in a row.\<close>

primrec registerTimes ::
  "nat \<Rightarrow> nat \<Rightarrow> string \<Rightarrow> types \<Rightarrow> rtype \<Rightarrow> swagger \<Rightarrow> swagger result" where
  "registerTimes 0 n tag \<Gamma> t swag = Some (Inr swag)"
| "registerTimes (Suc k) n tag \<Gamma> t swag =
     andThen (addDefinition n tag \<Gamma> swag t) (registerTimes k n tag \<Gamma> t)"

text \<open>
  The struct types registered by a call of \<^verbatim>\<open>addDefinition\<close>: the type whose fields it
  reads and the struct types reachable from it.
\<close>

definition registeredTypes :: "string \<Rightarrow> types \<Rightarrow> rtype \<Rightarrow> rtype set" where
  "registeredTypes tag \<Gamma> t = reachableTypes tag \<Gamma> (registeredType t)"

definition typeSchema :: "string \<Rightarrow> types \<Rightarrow> rtype \<Rightarrow> schema" where
  "typeSchema tag \<Gamma> t =
     (case t of StructT i \<Rightarrow> schemaOf tag \<Gamma> i | _ \<Rightarrow> Typed emptySchema ''object'' [])"

text \<open>
  What registering the types \<open>U\<close> makes of the definitions \<open>m\<close>: the entries under other
  names stay, and under the name of each type of \<open>U\<close> there is the schema of a type of
  \<open>U\<close> of that name.
\<close>

definition registers ::
  "string \<Rightarrow> types \<Rightarrow> rtype set \<Rightarrow> (string \<rightharpoonup> schema) \<Rightarrow> (string \<rightharpoonup> schema) \<Rightarrow> bool" where
  "registers tag \<Gamma> U m m' =
     ((\<forall>k. k \<notin> Name \<Gamma> ` U \<longrightarrow> m' k = m k)
      \<and> (\<forall>w \<in> U. \<exists>v \<in> U. Name \<Gamma> v = Name \<Gamma> w \<and> m' (Name \<Gamma> w) = Some (typeSchema tag \<Gamma> v)))"

fun fieldsReach :: "string \<Rightarrow> types \<Rightarrow> struct_field list \<Rightarrow> rtype set" where
  "fieldsReach tag \<Gamma> [] = {}"
| "fieldsReach tag \<Gamma> (f # fs) =
     (if Tag_Get (Tag f) tag = [] then {}
      else (case heldStruct (Type f) of None \<Rightarrow> {} | Some u \<Rightarrow> reachableTypes tag \<Gamma> u))
     \<union> fieldsReach tag \<Gamma> fs"

text \<open>
  A program with \<^verbatim>\<open>Root\<close>, which holds \<^verbatim>\<open>ParentA\<close> and \<^verbatim>\<open>ParentB\<close>, which both hold
  \<^verbatim>\<open>Shared\<close>, and with a second struct type of the name \<^verbatim>\<open>Shared\<close>.
\<close>

definition familyTypes :: types where
  "familyTypes i =
     (if i = 0 then
        \<lparr>declName = ''Root'',
         declFields = [\<lparr>Tag = [(''json'', ''a'')], Type = StructT 1\<rparr>,
                       \<lparr>Tag = [(''json'', ''b'')], Type = PtrTo (StructT 2)\<rparr>]\<rparr>
      else if i = 1 then
        \<lparr>declName = ''ParentA'',
         declFields = [\<lparr>Tag = [(''json'', ''shared'')], Type = StructT 3\<rparr>]\<rparr>
      else if i = 2 then
        \<lparr>declName = ''ParentB'',
         declFields = [\<lparr>Tag = [(''json'', ''all'')], Type = SliceOf (PtrTo (StructT 3))\<rparr>]\<rparr>
      else if i = 3 then
        \<lparr>declName = ''Shared'',
         declFields = [\<lparr>Tag = [(''json'', ''v'')], Type = Basic StringK ''string''\<rparr>]\<rparr>
      else
        \<lparr>declName = ''Shared'',
         declFields = [\<lparr>Tag = [(''json'', ''n'')], Type = Basic Int64K ''int64''\<rparr>]\<rparr>)"

subsection \<open>What addOperation does to the store and the paths\<close>

definition errTypeName :: "types \<Rightarrow> possible_error \<Rightarrow> string" where
  "errTypeName \<Gamma> pe = (case Indirect_Type (peMessage pe) of Inl e \<Rightarrow> [] | Inr t \<Rightarrow> Name \<Gamma> t)"

definition errorResponse :: "types \<Rightarrow> possible_error \<Rightarrow> string list \<Rightarrow> response" where
  "errorResponse \<Gamma> pe items =
     \<lparr>rDescription = ''Items: '' @ Join items '', '',
      rSchema = Some (RefProperty (definitionsRef (errTypeName \<Gamma> pe)))\<rparr>"

fun peOp :: "types \<Rightarrow> possible_error list \<Rightarrow> (int \<Rightarrow> string list) \<Rightarrow> operation \<Rightarrow> operation" where
  "peOp \<Gamma> [] pm op = op"
| "peOp \<Gamma> (pe # pes) pm op =
     peOp \<Gamma> pes (pm(peCode pe := pm (peCode pe) @ [peItem pe]))
       (RespondsWith op (peCode pe) (errorResponse \<Gamma> pe (pm (peCode pe) @ [peItem pe])))"

definition bodyParam :: "types \<Rightarrow> rtype \<Rightarrow> parameter" where
  "bodyParam \<Gamma> inType = BodyParam (Name \<Gamma> inType) (RefProperty (definitionsRef (Name \<Gamma> inType)))"

definition withBodyMethod :: "string \<Rightarrow> bool" where
  "withBodyMethod m = (m = ''POST'' \<or> m = ''PUT'' \<or> m = ''PATCH'')"

definition setMethod :: "string \<Rightarrow> 'a \<Rightarrow> 'a path_item \<Rightarrow> 'a path_item" where
  "setMethod m x item =
     (if m = ''GET'' then item\<lparr>Get := Some x\<rparr>
      else if m = ''DELETE'' then item\<lparr>Delete := Some x\<rparr>
      else if m = ''POST'' then item\<lparr>Post := Some x\<rparr>
      else if m = ''PUT'' then item\<lparr>Put := Some x\<rparr>
      else if m = ''PATCH'' then item\<lparr>Patch := Some x\<rparr>
      else item)"

definition pathKey :: "string \<Rightarrow> string" where
  "pathKey path = Join (map placeholder (Split path CHR ''/'')) ''/''"

fun selOp :: "string \<Rightarrow> types \<Rightarrow> rtype \<Rightarrow> selector list \<Rightarrow> operation \<Rightarrow> operation" where
  "selOp tag \<Gamma> inType [] op = op"
| "selOp tag \<Gamma> inType (OtherSelector # sels) op = selOp tag \<Gamma> inType sels op"
| "selOp tag \<Gamma> inType (RESTRouteSelector meth path # sels) op =
     (let op1 = (case setInput tag \<Gamma> op path inType of Inl e \<Rightarrow> op | Inr op' \<Rightarrow> op');
          op2 = (if withBodyMethod (ToUpper meth) then AddParam op1 (Some (bodyParam \<Gamma> inType)) else op1)
      in selOp tag \<Gamma> inType sels op2)"

fun selItems :: "selector list \<Rightarrow> 'a \<Rightarrow> (string \<rightharpoonup> 'a path_item) \<Rightarrow> (string \<rightharpoonup> 'a path_item)" where
  "selItems [] x items = items"
| "selItems (OtherSelector # sels) x items = selItems sels x items"
| "selItems (RESTRouteSelector meth path # sels) x items =
     selItems sels x
       (items(pathKey path \<mapsto>
          setMethod (ToUpper meth) x (case items (pathKey path) of None \<Rightarrow> emptyPathItem | Some i \<Rightarrow> i)))"

text \<open>everything but the definitions and the store is as before, and the store has its length\<close>

definition sameFrame :: "swagger \<Rightarrow> swagger \<Rightarrow> bool" where
  "sameFrame a b =
     (Swagger b = Swagger a \<and> Info b = Info a \<and> Schemes b = Schemes a \<and> Tags b = Tags a)"

definition responseFor :: "operation \<Rightarrow> int \<Rightarrow> response option" where
  "responseFor op code =
     (case opResponses op of
        None \<Rightarrow> None
      | Some rs \<Rightarrow> if code = 0 then Default rs else StatusCodeResponses rs code)"

definition contractOp :: "string \<Rightarrow> types \<Rightarrow> string \<Rightarrow> contract \<Rightarrow> operation" where
  "contractOp tag \<Gamma> serviceName c =
     (let inType = (case Indirect_Type (cInput c) of Inl e \<Rightarrow> Basic InvalidK [] | Inr t \<Rightarrow> t);
          outType = (case Indirect_Type (cOutput c) of Inl e \<Rightarrow> Basic InvalidK [] | Inr t \<Rightarrow> t);
          op = (RespondsWith (NewOperation (cName c)) 200
                    (WithSchema NewResponse (RefProperty (definitionsRef (Name \<Gamma> outType)))))
                 \<lparr>opTags := [serviceName],
                  opProduces := [''application/json''],
                  opConsumes := [''application/json'']\<rparr>
      in selOp tag \<Gamma> inType (cSelectors c) (peOp \<Gamma> (cPossibleErrors c) (\<lambda>code. []) op))"

definition itemsOf :: "swagger \<Rightarrow> (string \<rightharpoonup> nat path_item)" where
  "itemsOf swag = (case Paths swag of None \<Rightarrow> Map.empty | Some m \<Rightarrow> m)"

definition slotOf :: "string \<Rightarrow> ('a path_item \<Rightarrow> 'a option) option" where
  "slotOf m =
     (if m = ''GET'' then Some Get
      else if m = ''DELETE'' then Some Delete
      else if m = ''POST'' then Some Post
      else if m = ''PUT'' then Some Put
      else if m = ''PATCH'' then Some Patch
      else None)"

definition errorTypes :: types where
  "errorTypes i =
     (if i = 0 then \<lparr>declName = ''sampleReq'', declFields = []\<rparr>
      else \<lparr>declName = ''sampleError'',
            declFields = [\<lparr>Tag = [(''json'', ''code'')], Type = Basic IntK ''int''\<rparr>]\<rparr>)"

definition errorsContract :: contract where
  "errorsContract =
     \<lparr>cName = ''get'', cInput = ValueOf (PtrTo (StructT 0)), cOutput = ValueOf (PtrTo (StructT 0)),
      cPossibleErrors =
        [\<lparr>peCode = 404, peItem = ''ITEM1'', peMessage = ValueOf (PtrTo (StructT 1))\<rparr>,
         \<lparr>peCode = 504, peItem = ''SERVER'', peMessage = ValueOf (PtrTo (StructT 1))\<rparr>,
         \<lparr>peCode = 404, peItem = ''ITEM2'', peMessage = ValueOf (PtrTo (StructT 1))\<rparr>],
      cSelectors = [RESTRouteSelector ''get'' ''/some/:x'']\<rparr>"

definition failingMarshal :: "swagger \<Rightarrow> string + string" where
  "failingMarshal swag = Inl ''unsupported value''"

definition appendWrite :: "string list \<Rightarrow> string \<Rightarrow> string list \<times> string option" where
  "appendWrite w bytes = (w @ [bytes], None)"

subsection \<open>Two runs that start from documents with related definitions\<close>

text \<open>
  the definitions of the second document are those of the first over a base, and in
  both the pointer of the operation is valid and the paths are allocated
\<close>

definition related :: "(string \<rightharpoonup> schema) \<Rightarrow> nat \<Rightarrow> nat \<Rightarrow> swagger \<Rightarrow> swagger \<Rightarrow> bool" where
  "related D ra rb a b =
     (overBase D a b \<and> ra < length (Store a) \<and> rb < length (Store b)
      \<and> Paths a \<noteq> None \<and> Paths b \<noteq> None)"

subsection \<open>The document as the encoder reads it\<close>

definition resolveRef :: "operation list \<Rightarrow> nat \<Rightarrow> operation option" where
  "resolveRef st r = (if r < length st then Some (st ! r) else None)"

definition mapItem :: "('a \<Rightarrow> 'b option) \<Rightarrow> 'a path_item \<Rightarrow> 'b path_item" where
  "mapItem f item =
     \<lparr>Get = Option.bind (Get item) f, Put = Option.bind (Put item) f,
      Post = Option.bind (Post item) f, Delete = Option.bind (Delete item) f,
      Patch = Option.bind (Patch item) f\<rparr>"

text \<open>The path items with the operations their pointers lead to.\<close>

definition viewItems :: "swagger \<Rightarrow> (string \<rightharpoonup> operation path_item)" where
  "viewItems swag = (\<lambda>p. map_option (mapItem (resolveRef (Store swag))) (itemsOf swag p))"

definition pathsView :: "swagger \<Rightarrow> (string \<rightharpoonup> operation path_item) option" where
  "pathsView swag = (case Paths swag of None \<Rightarrow> None | Some items \<Rightarrow> Some (viewItems swag))"

text \<open>Every pointer in a path item is the address of an operation of the store.\<close>

definition validItem :: "nat \<Rightarrow> nat path_item \<Rightarrow> bool" where
  "validItem n item =
     (\<forall>r. (Get item = Some r \<or> Put item = Some r \<or> Post item = Some r \<or> Delete item = Some r
            \<or> Patch item = Some r) \<longrightarrow> r < n)"

definition refsValid :: "swagger \<Rightarrow> bool" where
  "refsValid swag = (\<forall>p item. itemsOf swag p = Some item \<longrightarrow> validItem (length (Store swag)) item)"

fun contractsView ::
  "string \<Rightarrow> types \<Rightarrow> string \<Rightarrow> contract list \<Rightarrow> (string \<rightharpoonup> operation path_item)
     \<Rightarrow> (string \<rightharpoonup> operation path_item)" where
  "contractsView tag \<Gamma> serviceName [] v = v"
| "contractsView tag \<Gamma> serviceName (c # cs) v =
     contractsView tag \<Gamma> serviceName cs
       (selItems (cSelectors c) (contractOp tag \<Gamma> serviceName c) v)"

fun servicesView ::
  "string \<Rightarrow> types \<Rightarrow> service list \<Rightarrow> (string \<rightharpoonup> operation path_item)
     \<Rightarrow> (string \<rightharpoonup> operation path_item)" where
  "servicesView tag \<Gamma> [] v = v"
| "servicesView tag \<Gamma> (sv # svcs) v =
     servicesView tag \<Gamma> svcs (contractsView tag \<Gamma> (svcName sv) (svcContracts sv) v)"

subsection \<open>Writing the same operations into the path items again\<close>

text \<open>A path item laid over another: the methods it has, and the other's for the rest.\<close>

definition overItem :: "'a path_item \<Rightarrow> 'a path_item \<Rightarrow> 'a path_item" where
  "overItem w i =
     \<lparr>Get = (case Get w of None \<Rightarrow> Get i | Some x \<Rightarrow> Some x),
      Put = (case Put w of None \<Rightarrow> Put i | Some x \<Rightarrow> Some x),
      Post = (case Post w of None \<Rightarrow> Post i | Some x \<Rightarrow> Some x),
      Delete = (case Delete w of None \<Rightarrow> Delete i | Some x \<Rightarrow> Some x),
      Patch = (case Patch w of None \<Rightarrow> Patch i | Some x \<Rightarrow> Some x)\<rparr>"

definition applyW :: "('k \<rightharpoonup> 'a path_item) \<Rightarrow> ('k \<rightharpoonup> 'a path_item) \<Rightarrow> ('k \<rightharpoonup> 'a path_item)" where
  "applyW W v =
     (\<lambda>k. case W k of
             None \<Rightarrow> v k
           | Some w \<Rightarrow> Some (overItem w (case v k of None \<Rightarrow> emptyPathItem | Some i \<Rightarrow> i)))"

definition isOverlay :: "(('k \<rightharpoonup> 'a path_item) \<Rightarrow> ('k \<rightharpoonup> 'a path_item)) \<Rightarrow> bool" where
  "isOverlay F = (\<forall>v. F v = applyW (F Map.empty) v)"

text \<open>An encoder that writes the names of the tags, which the JSON encoder writes among the rest.\<close>

definition tagsMarshal :: "swagger \<Rightarrow> string + string" where
  "tagsMarshal swag = Inr (Join (map tName (Tags swag)) '','')"

definition emptyService :: service where
  "emptyService = \<lparr>svcName = ''svc'', svcContracts = []\<rparr>"

definition itemService :: service where
  "itemService = \<lparr>svcName = ''svc'', svcContracts = [postGetContract]\<rparr>"

section \<open>Properties\<close>

subsection \<open>Splitting and joining\<close>

lemma Split_not_Nil: "Split s sep \<noteq> []"
  by (induction s) (auto split: list.splits)

lemma Split_no_sep: "p \<in> set (Split s sep) \<Longrightarrow> sep \<notin> set p"
proof (induction s arbitrary: p)
  case Nil
  then show ?case by simp
next
  case (Cons c s)
  show ?case
  proof (cases "c = sep")
    case True
    with Cons show ?thesis by auto
  next
    case False
    obtain q qs where q: "Split s sep = q # qs"
      using Split_not_Nil [of s sep] by (cases "Split s sep") auto
    with Cons False show ?thesis by auto
  qed
qed

lemma Split_single: "sep \<notin> set p \<Longrightarrow> Split p sep = [p]"
  by (induction p) auto

lemma Split_append_sep:
  "sep \<notin> set p \<Longrightarrow> Split (p @ sep # s) sep = p # Split s sep"
  by (induction p) auto

lemma Split_Join:
  "ps \<noteq> [] \<Longrightarrow> \<forall>p \<in> set ps. sep \<notin> set p \<Longrightarrow> Split (Join ps [sep]) sep = ps"
proof (induction ps "[sep]" rule: Join.induct)
  case 1
  then show ?case by simp
next
  case (2 e)
  then show ?case by (simp add: Split_single)
next
  case (3 e v va)
  then show ?case by (simp add: Split_append_sep)
qed

lemma Join_snoc: "ps \<noteq> [] \<Longrightarrow> Join (ps @ [p]) sep = Join ps sep @ sep @ p"
  by (induction ps sep rule: Join.induct) auto

subsection \<open>replacePath\<close>

lemma HasPrefix_colon: "HasPrefix p '':'' \<longleftrightarrow> (\<exists>r. p = CHR '':'' # r)"
  by (cases p) (auto simp: HasPrefix_def)

lemma replacePath_loop_step:
  "replacePath_loop idx (p # ps) sb =
     replacePath_loop (Suc idx) ps ((if idx > 0 then sb @ ''/'' else sb) @ placeholder p)"
  by (cases p) (simp_all add: placeholder_def slice_from_def HasPrefix_def)

lemma replacePath_loop_Join:
  "replacePath_loop idx ps sb =
     Inr (if ps = [] then sb
          else (if idx > 0 then sb @ ''/'' else sb) @ Join (map placeholder ps) ''/'')"
proof (induction ps arbitrary: idx sb)
  case Nil
  show ?case by simp
next
  case (Cons p ps)
  show ?case
  proof (cases ps)
    case Nil
    then show ?thesis
      unfolding replacePath_loop_step by simp
  next
    case (Cons q qs)
    then show ?thesis
      unfolding replacePath_loop_step Cons.IH by simp
  qed
qed

lemma replacePath_Join:
  "replacePath path = Inr (Join (map placeholder (Split path CHR ''/'')) ''/'')"
  by (simp add: replacePath_def replacePath_loop_Join Split_not_Nil)

lemma placeholder_no_slash: "CHR ''/'' \<notin> set p \<Longrightarrow> CHR ''/'' \<notin> set (placeholder p)"
  by (auto simp: placeholder_def dest: in_set_dropD)

text \<open>
  C9. \<^verbatim>\<open>replacePath\<close> returns for every string (its slice expression never panics);
  the pieces of the result between the slashes are those of the argument, in the same
  number and order, each piece that starts with a colon replaced by its name in
  braces and every other piece (an empty leading piece too) unchanged; and
  \<^verbatim>\<open>replacePath("/some/:x/:y")\<close> is \<^verbatim>\<open>/some/{x}/{y}\<close>.
\<close>

theorem replacePath_total_and_segments:
  "(\<exists>out. replacePath path = Inr out
      \<and> Split out CHR ''/'' = map placeholder (Split path CHR ''/''))
   \<and> replacePath ''/some/:x/:y'' = Inr ''/some/{x}/{y}''"
proof -
  let ?ps = "map placeholder (Split path CHR ''/'')"
  have "\<forall>p \<in> set ?ps. CHR ''/'' \<notin> set p"
    using Split_no_sep [of _ path "CHR ''/''"] placeholder_no_slash by auto
  moreover have "?ps \<noteq> []"
    by (simp add: Split_not_Nil)
  ultimately have "Split (Join ?ps ''/'') CHR ''/'' = ?ps"
    using Split_Join [of ?ps "CHR ''/''"] by simp
  moreover have "replacePath ''/some/:x/:y'' = Inr ''/some/{x}/{y}''"
    by (simp add: replacePath_def HasPrefix_def slice_from_def)
  ultimately show ?thesis
    by (simp add: replacePath_Join)
qed

theorem replacePath_total_and_segments_witness:
  "replacePath ''/a/:id'' = Inr ''/a/{id}''
   \<and> Split ''/a/{id}'' CHR ''/'' = map placeholder (Split ''/a/:id'' CHR ''/'')"
proof -
  have r: "replacePath ''/a/:id'' = Inr ''/a/{id}''"
    by (simp add: replacePath_def HasPrefix_def slice_from_def)
  from replacePath_total_and_segments [of "''/a/:id''"] r show ?thesis
    by (simp add: placeholder_def HasPrefix_def)
qed

lemma andThen_simps [simp]:
  "andThen None f = None"
  "andThen (Some (Inl e)) f = Some (Inl e)"
  "andThen (Some (Inr x)) f = f x"
  by (simp_all add: andThen_def)

lemma andThen_lift [simp]:
  "andThen (lift (Inl e)) f = Some (Inl e)"
  "andThen (lift (Inr x)) f = f x"
  by (simp_all add: lift_def)

lemma andThen_eq_Inr:
  "andThen m f = Some (Inr y) \<longleftrightarrow> (\<exists>x. m = Some (Inr x) \<and> f x = Some (Inr y))"
  by (auto simp: andThen_def split: option.splits sum.splits)

lemma lift_eq_iff [simp]: "lift r = Some r' \<longleftrightarrow> r = r'"
  by (simp add: lift_def)

lemma Kind_PtrK: "Kind t = PtrK \<longleftrightarrow> (\<exists>u. t = PtrTo u)"
  by (cases t) (auto split: kind.splits)

lemma Kind_SliceK: "Kind t = SliceK \<longleftrightarrow> (\<exists>u. t = SliceOf u)"
  by (cases t) (auto split: kind.splits)

lemma Kind_StructK: "Kind t = StructK \<longleftrightarrow> (\<exists>i. t = StructT i)"
  by (cases t) (auto split: kind.splits)

lemma wrapSwitch_cases:
  "wrapSwitch t =
     (case t of PtrTo u \<Rightarrow> Inr (u, \<lambda>schema. schema)
      | SliceOf u \<Rightarrow> Inr (u, \<lambda>item. ArrayProperty item)
      | _ \<Rightarrow> Inr (t, \<lambda>schema. schema))"
  by (cases t) (auto simp: wrapSwitch_def split: kind.splits)

lemma Switch_returns: "\<exists>item nested. Switch \<Gamma> t = Inr (item, nested)"
proof (induction t)
  case (Basic k n)
  then show ?case by (cases k) auto
qed auto

lemma Switch_nested: "Switch \<Gamma> t = Inr (item, Some u) \<Longrightarrow> \<exists>i. u = StructT i"
proof (induction t)
  case (Basic k n)
  then show ?case by (cases k) auto
qed auto

text \<open>
  C2 (the code breaks the claim). For a tagged field whose type is a slice of 8-bit
  integers, signed or unsigned, the loop body sets the property to an array whose items
  are arrays of 8-bit integers: the case of the 8-bit kinds wraps the item into an
  array, and \<^verbatim>\<open>wrapFunc\<close> of a slice wraps the result again.
\<close>

theorem byte_slice_array_of_arrays:
  assumes "Tag_Get (Tag f) tag \<noteq> []" "Type f = SliceOf el" "Kind el = Uint8K \<or> Kind el = Int8K"
  shows "addDefinition_fields rec tag \<Gamma> [f] swag def =
           Some (Inr (swag, SetProperty def (propertyName (Tag_Get (Tag f) tag))
                              (ArrayProperty (ArrayProperty Int8Property))))"
proof -
  from assms(3) obtain k n where el: "el = Basic k n" "k = Uint8K \<or> k = Int8K"
    by (cases el) (auto split: kind.splits)
  then have "Switch \<Gamma> el = Inr (ArrayProperty Int8Property, None)"
    by auto
  with assms(1,2) show ?thesis
    by (simp add: wrapSwitch_cases Let_def)
qed

theorem byte_slice_array_of_arrays_witness:
  "addDefinition 1 ''json'' bufferTypes (sg_s (NewSwagger [] [] [])) (StructT 0) =
     Some (Inr ((sg_s (NewSwagger [] [] []))\<lparr>Definitions := Some [''subRes'' \<mapsto>
        Schema [''object''] [] [] None
          [(''another'', Schema [''array''] [] [] (Some (Schema [''array''] [] []
              (Some (Schema [''integer''] ''int8'' [] None [])) [])) [])]]\<rparr>))"
proof -
  let ?f = "\<lparr>Tag = [(''json'', ''another'')], Type = SliceOf (Basic Uint8K ''uint8'')\<rparr>"
  have tagged: "Tag_Get (Tag ?f) ''json'' \<noteq> []"
    by (simp add: Tag_Get_def)
  have step: "addDefinition_fields rec ''json'' bufferTypes [?f] swag def =
      Some (Inr (swag, SetProperty def (propertyName (Tag_Get (Tag ?f) ''json''))
                              (ArrayProperty (ArrayProperty Int8Property))))" for rec swag def
    using byte_slice_array_of_arrays [OF tagged, of "Basic Uint8K ''uint8''" rec bufferTypes swag def]
    by simp
  have fs: "declFields (bufferTypes 0) = [?f]"
    by (simp add: bufferTypes_def)
  show ?thesis
    unfolding One_nat_def addDefinition.simps addDefinition_body_def
    by (simp add: fs step bufferTypes_def NewSwagger_def Tag_Get_def propertyName_def
        SetProperty_def Typed_def emptySchema_def ArrayProperty_def Int8Property_def
        del: addDefinition_fields.simps)
qed

lemma selfRef_diverges: "addDefinition n ''json'' selfRefTypes swag (StructT 0) = None"
proof (induction n arbitrary: swag)
  case 0
  show ?case by simp
next
  case (Suc n)
  have a: "declFields (selfRefTypes 0) = [\<lparr>Tag = [(''json'', ''next'')], Type = PtrTo (StructT 0)\<rparr>]"
    by (simp add: selfRefTypes_def)
  show ?case
    by (simp add: addDefinition_body_def a Tag_Get_def wrapSwitch_cases Let_def Suc)
qed

lemma mutual_diverges:
  "addDefinition n ''json'' mutualTypes swag (StructT 0) = None
   \<and> addDefinition n ''json'' mutualTypes swag (StructT (Suc 0)) = None"
proof (induction n arbitrary: swag)
  case 0
  show ?case by simp
next
  case (Suc n)
  have a: "declFields (mutualTypes 0) = [\<lparr>Tag = [(''json'', ''children'')], Type = SliceOf (StructT (Suc 0))\<rparr>]"
    and b: "declFields (mutualTypes (Suc 0)) = [\<lparr>Tag = [(''json'', ''parent'')], Type = PtrTo (StructT 0)\<rparr>]"
    by (simp_all add: mutualTypes_def)
  show ?case
    by (simp add: addDefinition_body_def a b Tag_Get_def wrapSwitch_cases Let_def Suc)
qed

lemma addDefinition_fields_mono:
  assumes "\<And>swag t r. rec swag t = Some r \<Longrightarrow> rec' swag t = Some r"
  shows "addDefinition_fields rec tag \<Gamma> fs swag def = Some r
         \<Longrightarrow> addDefinition_fields rec' tag \<Gamma> fs swag def = Some r"
proof (induction fs arbitrary: swag def)
  case Nil
  then show ?case by simp
next
  case (Cons f fs)
  show ?case
  proof (cases "Tag_Get (Tag f) tag = []")
    case True
    with Cons show ?thesis by simp
  next
    case False
    obtain t w where w: "wrapSwitch (Type f) = Inr (t, w)"
      by (cases "Type f") (auto simp: wrapSwitch_cases)
    obtain item nested where sw: "Switch \<Gamma> t = Inr (item, nested)"
      using Switch_returns by blast
    show ?thesis
    proof (cases nested)
      case None
      with Cons False w sw show ?thesis by (simp add: Let_def)
    next
      case (Some u)
      show ?thesis
      proof (cases "rec swag u")
        case None
        with Cons.prems False w sw Some show ?thesis by (simp add: Let_def)
      next
        case (Some x)
        note rx = this
        then have rx': "rec' swag u = Some x" by (rule assms)
        show ?thesis
        proof (cases x)
          case (Inl e)
          with Cons.prems False w sw \<open>nested = Some u\<close> rx rx' show ?thesis
            by (simp add: Let_def)
        next
          case (Inr swag')
          with Cons.prems False w sw \<open>nested = Some u\<close> rx rx' show ?thesis
            by (simp add: Let_def Cons.IH)
        qed
      qed
    qed
  qed
qed

lemma addDefinition_body_mono:
  assumes "\<And>swag t r. rec swag t = Some r \<Longrightarrow> rec' swag t = Some r"
    and "addDefinition_body rec tag \<Gamma> swag t = Some r"
  shows "addDefinition_body rec' tag \<Gamma> swag t = Some r"
proof -
  define t0 where "t0 = (if Kind t = PtrK then Elem t else Inr t)"
  define sw0 where "sw0 = (if Definitions swag = None then swag\<lparr>Definitions := Some Map.empty\<rparr> else swag)"
  show ?thesis
  proof (cases t0)
    case (Inl e)
    with assms(2) show ?thesis
      by (simp add: addDefinition_body_def t0_def)
  next
    case (Inr u)
    note u = this
    show ?thesis
    proof (cases "Fields \<Gamma> u")
      case (Inl e)
      with assms(2) u show ?thesis
        by (simp add: addDefinition_body_def t0_def Let_def)
    next
      case (Inr fs)
      show ?thesis
      proof (cases "addDefinition_fields rec tag \<Gamma> fs sw0 (Typed emptySchema ''object'' [])")
        case None
        with assms(2) u Inr show ?thesis
          by (simp add: addDefinition_body_def t0_def sw0_def Let_def)
      next
        case (Some x)
        then have "addDefinition_fields rec' tag \<Gamma> fs sw0 (Typed emptySchema ''object'' []) = Some x"
          using addDefinition_fields_mono [of rec rec'] assms(1) by blast
        with Some assms(2) u Inr show ?thesis
          by (simp add: addDefinition_body_def t0_def sw0_def Let_def)
      qed
    qed
  qed
qed

lemma addDefinition_Suc_mono:
  "addDefinition n tag \<Gamma> swag t = Some r \<Longrightarrow> addDefinition (Suc n) tag \<Gamma> swag t = Some r"
proof (induction n arbitrary: swag t r)
  case 0
  then show ?case by simp
next
  case (Suc n)
  show ?case
    using addDefinition_body_mono [of "addDefinition n tag \<Gamma>" "addDefinition (Suc n) tag \<Gamma>"]
      Suc.IH Suc.prems by simp
qed

lemma addDefinition_mono:
  "n \<le> m \<Longrightarrow> addDefinition n tag \<Gamma> swag t = Some r \<Longrightarrow> addDefinition m tag \<Gamma> swag t = Some r"
proof (induction m)
  case 0
  then show ?case by simp
next
  case (Suc m)
  show ?case
  proof (cases "n = Suc m")
    case True
    with Suc.prems show ?thesis by simp
  next
    case False
    with Suc.prems have "n \<le> m" by simp
    with Suc have "addDefinition m tag \<Gamma> swag t = Some r" by blast
    then show ?thesis by (rule addDefinition_Suc_mono)
  qed
qed

lemma Switch_structBehind: "Switch \<Gamma> t = Inr (item, nested) \<Longrightarrow> nested = structBehind t"
proof (induction t)
  case (Basic k n)
  then show ?case by (cases k) auto
qed auto

lemma nestedType_heldStruct: "nestedType \<Gamma> t = heldStruct t"
proof -
  obtain u w where w: "wrapSwitch t = Inr (u, w)"
    by (cases t) (auto simp: wrapSwitch_cases)
  obtain item nested where sw: "Switch \<Gamma> u = Inr (item, nested)"
    using Switch_returns by blast
  from Switch_structBehind [OF sw] have n: "nestedType \<Gamma> t = structBehind u"
    using w sw by (simp add: nestedType_def)
  from w show ?thesis
    unfolding n by (cases t) (auto simp: wrapSwitch_cases)
qed

lemma reachableTypes_self: "t \<in> reachableTypes tag \<Gamma> t"
  by (simp add: reachableTypes_def)

lemma reachableTypes_step:
  "(u, v) \<in> nested_struct tag \<Gamma> \<Longrightarrow> v \<in> reachableTypes tag \<Gamma> t \<Longrightarrow> u \<in> reachableTypes tag \<Gamma> t"
  by (auto simp: reachableTypes_def intro: converse_rtrancl_into_rtrancl)

lemma reachableTypes_unfold:
  "reachableTypes tag \<Gamma> t
     = insert t (\<Union>u \<in> {u. (u, t) \<in> nested_struct tag \<Gamma>}. reachableTypes tag \<Gamma> u)"
proof (intro set_eqI iffI)
  fix w
  assume "w \<in> reachableTypes tag \<Gamma> t"
  then have "(w, t) \<in> (nested_struct tag \<Gamma>)\<^sup>*"
    by (simp add: reachableTypes_def)
  then show "w \<in> insert t (\<Union>u \<in> {u. (u, t) \<in> nested_struct tag \<Gamma>}. reachableTypes tag \<Gamma> u)"
    by (cases rule: rtranclE) (auto simp: reachableTypes_def)
next
  fix w
  assume "w \<in> insert t (\<Union>u \<in> {u. (u, t) \<in> nested_struct tag \<Gamma>}. reachableTypes tag \<Gamma> u)"
  then show "w \<in> reachableTypes tag \<Gamma> t"
    by (auto simp: reachableTypes_def intro: rtrancl_into_rtrancl)
qed

lemma nestedType_StructT: "nestedType \<Gamma> fType = Some u \<Longrightarrow> \<exists>i. u = StructT i"
  by (auto simp: nestedType_def split: sum.splits dest: Switch_nested)

text \<open>enough fuel for every field\<close>

lemma addDefinition_fields_returns:
  assumes "\<And>f u. f \<in> set fs \<Longrightarrow> Tag_Get (Tag f) tag \<noteq> [] \<Longrightarrow> nestedType \<Gamma> (Type f) = Some u
             \<Longrightarrow> \<exists>n. \<forall>swag. addDefinition n tag \<Gamma> swag u \<noteq> None"
  shows "\<exists>n. \<forall>swag def. addDefinition_fields (addDefinition n tag \<Gamma>) tag \<Gamma> fs swag def \<noteq> None"
  using assms
proof (induction fs)
  case Nil
  show ?case by simp
next
  case (Cons f fs)
  from Cons obtain n1 where n1:
    "\<And>swag def. addDefinition_fields (addDefinition n1 tag \<Gamma>) tag \<Gamma> fs swag def \<noteq> None"
    by (metis list.set_intros(2))
  have rest: "addDefinition_fields (addDefinition m tag \<Gamma>) tag \<Gamma> fs swag def \<noteq> None"
    if "n1 \<le> m" for m swag def
  proof -
    obtain r where "addDefinition_fields (addDefinition n1 tag \<Gamma>) tag \<Gamma> fs swag def = Some r"
      using n1 by blast
    then have "addDefinition_fields (addDefinition m tag \<Gamma>) tag \<Gamma> fs swag def = Some r"
      using addDefinition_fields_mono [of "addDefinition n1 tag \<Gamma>" "addDefinition m tag \<Gamma>"]
        addDefinition_mono [OF that] by blast
    then show ?thesis by simp
  qed
  show ?case
  proof (cases "Tag_Get (Tag f) tag = []")
    case True
    with n1 show ?thesis by auto
  next
    case False
    obtain t w where w: "wrapSwitch (Type f) = Inr (t, w)"
      by (cases "Type f") (auto simp: wrapSwitch_cases)
    obtain item nested where sw: "Switch \<Gamma> t = Inr (item, nested)"
      using Switch_returns by blast
    show ?thesis
    proof (cases nested)
      case None
      with False w sw n1 show ?thesis by (auto simp: Let_def)
    next
      case (Some u)
      with w sw have "nestedType \<Gamma> (Type f) = Some u"
        by (simp add: nestedType_def)
      with Cons.prems [of f u] False obtain n2 where
        n2: "\<And>swag. addDefinition n2 tag \<Gamma> swag u \<noteq> None"
        by auto
      have nest: "addDefinition (max n1 n2) tag \<Gamma> swag u \<noteq> None" for swag
      proof -
        obtain r where "addDefinition n2 tag \<Gamma> swag u = Some r"
          using n2 by blast
        then have "addDefinition (max n1 n2) tag \<Gamma> swag u = Some r"
          using addDefinition_mono [of n2 "max n1 n2"] by simp
        then show ?thesis by simp
      qed
      have "addDefinition_fields (addDefinition (max n1 n2) tag \<Gamma>) tag \<Gamma> (f # fs) swag def \<noteq> None"
        for swag def
      proof -
        obtain r where r: "addDefinition (max n1 n2) tag \<Gamma> swag u = Some r"
          using nest by blast
        show ?thesis
        proof (cases r)
          case (Inl e)
          with r False w sw Some show ?thesis by (simp add: Let_def)
        next
          case (Inr swag')
          with r False w sw Some rest [of "max n1 n2"] show ?thesis by (simp add: Let_def)
        qed
      qed
      then show ?thesis by blast
    qed
  qed
qed

lemma addDefinition_body_returns:
  assumes "\<And>fs. Fields \<Gamma> t = Inr fs \<Longrightarrow>
             \<forall>swag def. addDefinition_fields rec tag \<Gamma> fs swag def \<noteq> None"
    and "Kind t \<noteq> PtrK"
  shows "addDefinition_body rec tag \<Gamma> swag t \<noteq> None"
proof (cases "Fields \<Gamma> t")
  case (Inl e)
  with assms(2) show ?thesis by (simp add: addDefinition_body_def Let_def)
next
  case (Inr fs)
  define sw0 where "sw0 = (if Definitions swag = None then swag\<lparr>Definitions := Some Map.empty\<rparr> else swag)"
  from assms(1) [OF Inr] have
    "addDefinition_fields rec tag \<Gamma> fs sw0 (Typed emptySchema ''object'' []) \<noteq> None"
    by blast
  then obtain r where
    "addDefinition_fields rec tag \<Gamma> fs sw0 (Typed emptySchema ''object'' []) = Some r"
    by auto
  with Inr assms(2) show ?thesis
    by (cases r) (auto simp: addDefinition_body_def Let_def sw0_def split: option.splits)
qed

lemma addDefinition_struct_returns:
  assumes "wf (nested_below tag \<Gamma> t0)"
  shows "t \<in> reachableTypes tag \<Gamma> t0 \<Longrightarrow> Kind t \<noteq> PtrK
           \<Longrightarrow> \<exists>n. \<forall>swag. addDefinition n tag \<Gamma> swag t \<noteq> None"
  using assms
proof (induction t rule: wf_induct_rule)
  case (less t)
  have "\<exists>n. \<forall>swag def. addDefinition_fields (addDefinition n tag \<Gamma>) tag \<Gamma> fs swag def \<noteq> None"
    if fs: "Fields \<Gamma> t = Inr fs" for fs
  proof (rule addDefinition_fields_returns)
    fix f u
    assume f: "f \<in> set fs" "Tag_Get (Tag f) tag \<noteq> []" "nestedType \<Gamma> (Type f) = Some u"
    from fs obtain i where "t = StructT i" "fs = declFields (\<Gamma> i)"
      by (cases t) auto
    with f have edge: "(u, t) \<in> nested_struct tag \<Gamma>"
      by (auto simp: nested_struct_def nestedType_heldStruct)
    with less.prems(1) have "(u, t) \<in> nested_below tag \<Gamma> t0"
      by (simp add: nested_below_def)
    moreover from edge less.prems(1) have "u \<in> reachableTypes tag \<Gamma> t0"
      by (rule reachableTypes_step)
    moreover have "Kind u \<noteq> PtrK"
      using nestedType_StructT [OF f(3)] by auto
    ultimately show "\<exists>n. \<forall>swag. addDefinition n tag \<Gamma> swag u \<noteq> None"
      by (rule less.IH)
  qed
  then obtain n where n: "Fields \<Gamma> t = Inr fs \<Longrightarrow>
      \<forall>swag def. addDefinition_fields (addDefinition n tag \<Gamma>) tag \<Gamma> fs swag def \<noteq> None" for fs
    by (cases "Fields \<Gamma> t") auto
  have "addDefinition (Suc n) tag \<Gamma> swag t \<noteq> None" for swag
    using addDefinition_body_returns [of \<Gamma> t "addDefinition n tag \<Gamma>" tag swag] n less.prems
    by simp
  then show ?case by blast
qed

lemma addDefinition_returns:
  assumes "wf (nested_below tag \<Gamma> (registeredType t))"
  shows "\<exists>n. \<forall>swag. addDefinition n tag \<Gamma> swag t \<noteq> None"
proof (cases "Kind t = PtrK")
  case False
  then have "registeredType t = t"
    by (cases t) (simp_all add: registeredType_def)
  with assms have "wf (nested_below tag \<Gamma> t)" by simp
  from addDefinition_struct_returns [OF this reachableTypes_self False] show ?thesis .
next
  case True
  then obtain u where t: "t = PtrTo u"
    by (auto simp: Kind_PtrK)
  show ?thesis
  proof (cases "Kind u = PtrK")
    case True
    then have "Fields \<Gamma> u = Inl NumFieldOfNonStruct"
      by (cases u) auto
    with t have "addDefinition (Suc 0) tag \<Gamma> swag t \<noteq> None" for swag
      by (simp add: addDefinition_body_def Let_def)
    then show ?thesis by blast
  next
    case False
    from assms t have "wf (nested_below tag \<Gamma> u)"
      by (simp add: registeredType_def)
    from addDefinition_struct_returns [OF this reachableTypes_self False] obtain n where
      n: "\<And>swag. addDefinition n tag \<Gamma> swag u \<noteq> None" by blast
    have "addDefinition n tag \<Gamma> swag t = addDefinition n tag \<Gamma> swag u" for swag
      using False t by (cases n) (simp_all add: addDefinition_body_def)
    with n have "\<forall>swag. addDefinition n tag \<Gamma> swag t \<noteq> None" by simp
    then show ?thesis by blast
  qed
qed

lemma nested_below_finite_acyclic:
  assumes "finite (reachableTypes tag \<Gamma> t)" and "acyclic (nested_below tag \<Gamma> t)"
  shows "wf (nested_below tag \<Gamma> t)"
proof -
  have "nested_below tag \<Gamma> t \<subseteq> reachableTypes tag \<Gamma> t \<times> reachableTypes tag \<Gamma> t"
    by (auto simp: nested_below_def intro: reachableTypes_step)
  with assms(1) have "finite (nested_below tag \<Gamma> t)"
    by (meson finite_SigmaI finite_subset)
  then show ?thesis
    using assms(2) by (rule finite_acyclic_wf)
qed

text \<open>
  C3. \<^verbatim>\<open>addDefinition\<close> has no cycle detection. For the struct \<^verbatim>\<open>Node\<close> with a
  tagged field of type \<^verbatim>\<open>*Node\<close>, and for the pair \<^verbatim>\<open>Parent\<close> (a tagged slice of
  \<^verbatim>\<open>Child\<close>) and \<^verbatim>\<open>Child\<close> (a tagged pointer to \<^verbatim>\<open>Parent\<close>), no depth of the call
  stack is enough for the call to return. For every type, when the graph of the nested
  struct types among the types reachable from it is well-founded, and so when these
  types are finitely many and the graph among them is acyclic, some depth is enough for
  every document the call starts from; what the other types of the program are does not
  matter.
\<close>

theorem addDefinition_no_cycle_detection:
  "(\<forall>n swag. addDefinition n ''json'' selfRefTypes swag (StructT 0) = None)
   \<and> (\<forall>n swag. addDefinition n ''json'' mutualTypes swag (StructT 0) = None)
   \<and> (wf (nested_below tag \<Gamma> (registeredType t))
        \<longrightarrow> (\<exists>n. \<forall>swag. \<exists>r. addDefinition n tag \<Gamma> swag t = Some r))
   \<and> (finite (reachableTypes tag \<Gamma> (registeredType t)) \<and> acyclic (nested_below tag \<Gamma> (registeredType t))
        \<longrightarrow> (\<exists>n. \<forall>swag. \<exists>r. addDefinition n tag \<Gamma> swag t = Some r))"
proof -
  have 1: "\<exists>n. \<forall>swag. \<exists>r. addDefinition n tag \<Gamma> swag t = Some r"
    if "wf (nested_below tag \<Gamma> (registeredType t))"
    using addDefinition_returns [OF that] by (simp add: not_None_eq)
  have 2: "\<exists>n. \<forall>swag. \<exists>r. addDefinition n tag \<Gamma> swag t = Some r"
    if "finite (reachableTypes tag \<Gamma> (registeredType t))"
      and "acyclic (nested_below tag \<Gamma> (registeredType t))"
    using 1 nested_below_finite_acyclic [OF that] by blast
  from 1 2 show ?thesis
    using selfRef_diverges mutual_diverges by blast
qed

lemma nested_struct_nestedTypes:
  "(u, StructT i) \<in> nested_struct ''json'' nestedTypes
     \<longleftrightarrow> (if i = 0 then u = StructT 1 else if i = 1 then False else u = StructT i)"
  by (auto simp: nested_struct_def nestedTypes_def Tag_Get_def)

lemma reachableTypes_nestedTypes:
  "reachableTypes ''json'' nestedTypes (StructT 0) = {StructT 0, StructT 1}"
proof -
  have 1: "reachableTypes ''json'' nestedTypes (StructT (Suc 0)) = {StructT (Suc 0)}"
    by (subst reachableTypes_unfold) (simp add: nested_struct_nestedTypes)
  have "{u. (u, StructT 0) \<in> nested_struct ''json'' nestedTypes} = {StructT 1}"
    by (simp add: nested_struct_nestedTypes)
  then show ?thesis
    by (subst reachableTypes_unfold) (simp add: 1)
qed

theorem addDefinition_no_cycle_detection_witness:
  "wf (nested_below ''json'' nestedTypes (registeredType (StructT 0)))
   \<and> finite (reachableTypes ''json'' nestedTypes (registeredType (StructT 0)))
   \<and> acyclic (nested_below ''json'' nestedTypes (registeredType (StructT 0)))
   \<and> \<not> wf (nested_struct ''json'' nestedTypes)
   \<and> (\<exists>n. \<forall>swag. \<exists>r. addDefinition n ''json'' nestedTypes swag (StructT 0) = Some r)"
proof -
  have r: "registeredType (StructT 0) = StructT 0"
    by (simp add: registeredType_def)
  have "nested_below ''json'' nestedTypes (StructT 0) \<subseteq> measure (\<lambda>t. if t = StructT 0 then 1 else 0)"
    by (auto simp: nested_below_def reachableTypes_nestedTypes nested_struct_nestedTypes)
  then have w: "wf (nested_below ''json'' nestedTypes (StructT 0))"
    using wf_measure by (rule wf_subset [rotated])
  have f: "finite (reachableTypes ''json'' nestedTypes (StructT 0))"
    by (simp add: reachableTypes_nestedTypes)
  have "(StructT 2, StructT 2) \<in> nested_struct ''json'' nestedTypes"
    by (simp add: nested_struct_nestedTypes)
  then have n: "\<not> wf (nested_struct ''json'' nestedTypes)"
    by (auto dest: wf_not_refl)
  from addDefinition_no_cycle_detection [of "''json''" nestedTypes "StructT 0"] w f n
  show ?thesis
    unfolding r by (auto intro: wf_acyclic)
qed

lemma pathParams_loop_eq:
  "pathParams_loop pps acc = acc @ map (drop 1) (filter (\<lambda>pp. HasPrefix pp '':'') pps)"
  by (induction pps arbitrary: acc) (auto simp: TrimPrefix_def)

lemma found_loop_eq: "found_loop fName pathParams \<longleftrightarrow> fName \<in> set pathParams"
proof -
  have "fold (\<lambda>pathParam found. if fName = pathParam then True else found) pps b
          \<longleftrightarrow> b \<or> fName \<in> set pps" for pps b
    by (induction pps arbitrary: b) auto
  then show ?thesis by (simp add: found_loop_def)
qed

lemma setParameter_cases:
  "setParameter p t = Inr None \<and> \<not> supported t
   \<or> (\<exists>ty fmt. setParameter p t = Inr (Some (pTyped p ty fmt)) \<and> supported t)"
proof (cases t)
  case (Basic k n)
  then show ?thesis
    by (cases k) (auto simp: setParameter_def supported_def supportedKind_def)
next
  case (PtrTo u)
  then show ?thesis
    by (simp add: setParameter_def supported_def supportedKind_def)
next
  case (SliceOf u)
  show ?thesis
  proof (cases u)
    case (Basic k n)
    with SliceOf show ?thesis
      by (cases k) (auto simp: setParameter_def supported_def supportedKind_def)
  qed (use SliceOf in \<open>simp_all add: setParameter_def supported_def supportedKind_def\<close>)
next
  case (StructT i)
  then show ?thesis
    by (simp add: setParameter_def supported_def supportedKind_def)
qed

lemma replaceParam_Some:
  "replaceParam q ps = Some ps' \<Longrightarrow>
     q \<in> set ps' \<and> set ps' \<subseteq> insert q (set ps)
     \<and> (\<forall>p \<in> set ps. p \<in> set ps' \<or> (pName p = pName q \<and> pIn p = pIn q))"
  by (induction ps arbitrary: ps') (auto split: if_splits)

lemma AddParam_mem: "q \<in> set (opParameters (AddParam op (Some q)))"
  by (auto simp: AddParam_def split: option.splits dest: replaceParam_Some)

lemma AddParam_subset: "set (opParameters (AddParam op (Some q))) \<subseteq> insert q (set (opParameters op))"
  by (auto simp: AddParam_def split: option.splits dest: replaceParam_Some)

lemma AddParam_keeps:
  "p \<in> set (opParameters op) \<Longrightarrow>
     p \<in> set (opParameters (AddParam op (Some q))) \<or> (pName p = pName q \<and> pIn p = pIn q)"
  by (auto simp: AddParam_def split: option.splits dest: replaceParam_Some)

lemma AddParam_None [simp]: "AddParam op None = op"
  by (simp add: AddParam_def)

lemma fieldParam_cases:
  "fieldParam tag (pathParamNames path) f = Inr None
     \<and> (Tag_Get (Tag f) tag = [] \<or> \<not> supported (Type f))
   \<or> (\<exists>q. fieldParam tag (pathParamNames path) f = Inr (Some q)
        \<and> Tag_Get (Tag f) tag \<noteq> [] \<and> supported (Type f) \<and> emittedFor tag path f q)"
proof (cases "Tag_Get (Tag f) tag = []")
  case True
  then show ?thesis by (simp add: fieldParam_def)
next
  case False
  show ?thesis
  proof (cases "Tag_Get (Tag f) tag \<in> set (pathParamNames path)")
    case True
    with False setParameter_cases [of "NoEmptyValues (AsRequired (PathParam (Tag_Get (Tag f) tag)))" "Type f"]
    show ?thesis
      by (auto simp: fieldParam_def found_loop_eq emittedFor_def pTyped_def NoEmptyValues_def
          AsRequired_def PathParam_def newParameter_def)
  next
    case no: False
    with False setParameter_cases [of "NoEmptyValues (AsRequired (QueryParam (Tag_Get (Tag f) tag)))" "Type f"]
    show ?thesis
      by (auto simp: fieldParam_def found_loop_eq emittedFor_def pTyped_def NoEmptyValues_def
          AsRequired_def QueryParam_def newParameter_def)
  qed
qed

lemma setInput_fields_step:
  "setInput_fields tag pps (f # fs) op =
     (case fieldParam tag pps f of Inl e \<Rightarrow> Inl e
      | Inr p \<Rightarrow> setInput_fields tag pps fs (AddParam op p))"
  by (simp add: fieldParam_def Let_def)

lemma emittedFor_same_key:
  "emittedFor tag path f p \<Longrightarrow> emittedFor tag path g q \<Longrightarrow> pName p = pName q \<Longrightarrow> emittedFor tag path f q"
  by (auto simp: emittedFor_def)

lemma setInput_fields_spec:
  "\<exists>op'. setInput_fields tag (pathParamNames path) fs op = Inr op'
     \<and> (\<forall>g p. p \<in> set (opParameters op) \<and> emittedFor tag path g p
            \<longrightarrow> (\<exists>p' \<in> set (opParameters op'). emittedFor tag path g p'))
     \<and> (\<forall>f \<in> set fs. Tag_Get (Tag f) tag \<noteq> [] \<and> supported (Type f)
            \<longrightarrow> (\<exists>p \<in> set (opParameters op'). emittedFor tag path f p))
     \<and> (\<forall>p \<in> set (opParameters op'). p \<in> set (opParameters op)
            \<or> (\<exists>f \<in> set fs. Tag_Get (Tag f) tag \<noteq> [] \<and> supported (Type f) \<and> emittedFor tag path f p))"
proof (induction fs arbitrary: op)
  case Nil
  show ?case by auto
next
  case (Cons f fs)
  from fieldParam_cases [of tag path f] consider
    (none) "fieldParam tag (pathParamNames path) f = Inr None"
      "Tag_Get (Tag f) tag = [] \<or> \<not> supported (Type f)"
  | (some) q where "fieldParam tag (pathParamNames path) f = Inr (Some q)"
      "Tag_Get (Tag f) tag \<noteq> []" "supported (Type f)" "emittedFor tag path f q"
    by blast
  then show ?case
  proof cases
    case none
    with Cons.IH [of op] show ?thesis
      unfolding setInput_fields_step by auto
  next
    case (some q)
    note q = some(1) and ok = some(2,3,4)
    let ?op1 = "AddParam op (Some q)"
    from Cons.IH [of ?op1] obtain op' where
      r: "setInput_fields tag (pathParamNames path) fs ?op1 = Inr op'"
      and keep: "\<And>g p. p \<in> set (opParameters ?op1) \<Longrightarrow> emittedFor tag path g p
                  \<Longrightarrow> \<exists>p' \<in> set (opParameters op'). emittedFor tag path g p'"
      and new: "\<And>f. f \<in> set fs \<Longrightarrow> Tag_Get (Tag f) tag \<noteq> [] \<Longrightarrow> supported (Type f)
                  \<Longrightarrow> \<exists>p \<in> set (opParameters op'). emittedFor tag path f p"
      and old: "\<And>p. p \<in> set (opParameters op') \<Longrightarrow> p \<in> set (opParameters ?op1)
                  \<or> (\<exists>f \<in> set fs. Tag_Get (Tag f) tag \<noteq> [] \<and> supported (Type f) \<and> emittedFor tag path f p)"
      by blast
    have 1: "\<exists>p' \<in> set (opParameters op'). emittedFor tag path g p'"
      if "p \<in> set (opParameters op)" "emittedFor tag path g p" for g p
    proof -
      from AddParam_keeps [OF that(1), of q] show ?thesis
      proof
        assume "p \<in> set (opParameters ?op1)"
        with that(2) keep show ?thesis by blast
      next
        assume "pName p = pName q \<and> pIn p = pIn q"
        with that(2) ok(3) have "emittedFor tag path g q"
          using emittedFor_same_key by blast
        with keep [OF AddParam_mem] show ?thesis by blast
      qed
    qed
    have 2: "\<exists>p \<in> set (opParameters op'). emittedFor tag path f p"
      using keep [OF AddParam_mem ok(3)] .
    have 3: "p \<in> set (opParameters op)
               \<or> (\<exists>f' \<in> set (f # fs). Tag_Get (Tag f') tag \<noteq> [] \<and> supported (Type f') \<and> emittedFor tag path f' p)"
      if "p \<in> set (opParameters op')" for p
      using old [OF that] AddParam_subset [of op q] ok by auto
    show ?thesis
      unfolding setInput_fields_step using q r 1 2 3 new by (simp, blast)
  qed
qed

lemma onlyDefinitions_trans:
  "onlyDefinitions a b \<Longrightarrow> onlyDefinitions b c \<Longrightarrow> onlyDefinitions a c"
  by (auto simp: onlyDefinitions_def)

lemma addDefinition_fields_effect:
  assumes "\<And>sw t sw'. rec sw t = Some (Inr sw') \<Longrightarrow> onlyDefinitions sw sw'"
  shows "addDefinition_fields rec tag \<Gamma> fs swag def = Some (Inr (swag', def'))
         \<Longrightarrow> (swag' = swag \<or> onlyDefinitions swag swag') \<and> def' = fieldsSchema tag \<Gamma> fs def"
proof (induction fs arbitrary: swag def)
  case Nil
  then show ?case by simp
next
  case (Cons f fs)
  show ?case
  proof (cases "Tag_Get (Tag f) tag = []")
    case True
    with Cons show ?thesis by simp
  next
    case False
    obtain t w where w: "wrapSwitch (Type f) = Inr (t, w)"
      by (cases "Type f") (auto simp: wrapSwitch_cases)
    obtain item nested where sw: "Switch \<Gamma> t = Inr (item, nested)"
      using Switch_returns by blast
    let ?def1 = "SetProperty def (propertyName (Tag_Get (Tag f) tag)) (w item)"
    show ?thesis
    proof (cases nested)
      case None
      with Cons.prems False w sw
      have "addDefinition_fields rec tag \<Gamma> fs swag ?def1 = Some (Inr (swag', def'))"
        by (simp add: Let_def)
      from Cons.IH [OF this] False w sw show ?thesis by simp
    next
      case (Some u)
      with Cons.prems False w sw obtain sw1 where
        r: "rec swag u = Some (Inr sw1)"
        and rest: "addDefinition_fields rec tag \<Gamma> fs sw1 ?def1 = Some (Inr (swag', def'))"
        by (auto simp: Let_def andThen_eq_Inr)
      from assms [OF r] Cons.IH [OF rest] False w sw show ?thesis
        by (auto intro: onlyDefinitions_trans)
    qed
  qed
qed

lemma addDefinition_effect:
  "addDefinition n tag \<Gamma> swag t = Some (Inr swag') \<Longrightarrow>
     onlyDefinitions swag swag'
     \<and> (\<exists>i m. (t = StructT i \<or> t = PtrTo (StructT i)) \<and> Definitions swag' = Some m
            \<and> m (declName (\<Gamma> i)) = Some (schemaOf tag \<Gamma> i))"
proof (induction n arbitrary: swag t swag')
  case 0
  then show ?case by simp
next
  case (Suc n)
  define sw0 where "sw0 = (if Definitions swag = None then swag\<lparr>Definitions := Some Map.empty\<rparr> else swag)"
  have sw0: "onlyDefinitions swag sw0"
  proof (cases "Definitions swag")
    case None
    then show ?thesis by (auto simp: sw0_def onlyDefinitions_def)
  next
    case (Some a)
    then have "swag = swag\<lparr>Definitions := Some a\<rparr>" by simp
    then have "\<exists>m. swag = swag\<lparr>Definitions := Some m\<rparr>" by (rule exI [of _ a])
    with Some show ?thesis unfolding sw0_def onlyDefinitions_def by simp
  qed
  from Suc.prems obtain t0 where t0: "(if Kind t = PtrK then Elem t else Inr t) = Inr t0"
    by (auto simp: addDefinition_body_def andThen_eq_Inr)
  from Suc.prems t0 obtain fs where fs: "Fields \<Gamma> t0 = Inr fs"
    by (auto simp: addDefinition_body_def andThen_eq_Inr Let_def)
  then obtain i where i: "t0 = StructT i" "fs = declFields (\<Gamma> i)"
    by (cases t0) auto
  from t0 i have t: "t = StructT i \<or> t = PtrTo (StructT i)"
    by (auto simp: Kind_PtrK split: if_splits)
  from Suc.prems t0 fs obtain sw1 def1 where
    f: "addDefinition_fields (addDefinition n tag \<Gamma>) tag \<Gamma> fs sw0 (Typed emptySchema ''object'' []) = Some (Inr (sw1, def1))"
    and fin: "(case Definitions sw1 of None \<Rightarrow> Some (Inl NilDereference)
               | Some defs \<Rightarrow> Some (Inr (sw1\<lparr>Definitions := Some (defs(Name \<Gamma> t0 \<mapsto> def1))\<rparr>))) = Some (Inr swag')"
    by (auto simp: addDefinition_body_def andThen_eq_Inr Let_def sw0_def)
  have "(sw1 = sw0 \<or> onlyDefinitions sw0 sw1) \<and> def1 = fieldsSchema tag \<Gamma> fs (Typed emptySchema ''object'' [])"
    using addDefinition_fields_effect [OF _ f] Suc.IH by blast
  with sw0 have 1: "onlyDefinitions swag sw1" and 2: "def1 = schemaOf tag \<Gamma> i"
    by (auto simp: schemaOf_def i intro: onlyDefinitions_trans)
  from 1 fin obtain defs where "Definitions sw1 = Some defs"
    and "swag' = sw1\<lparr>Definitions := Some (defs(Name \<Gamma> t0 \<mapsto> def1))\<rparr>"
    by (auto simp: onlyDefinitions_def)
  with 1 2 t i show ?case
    by (auto simp: onlyDefinitions_def)
qed

lemma ToUpper_GET: "ToUpper ''GET'' = ''GET''" "ToUpper ''POST'' = ''POST''"
  by (simp_all add: ToUpper.simps toUpperChar_def)

lemma replacePath_item: "replacePath ''/item'' = Inr ''/item''"
  by (simp add: replacePath_def HasPrefix_def)

text \<open>
  C7 (the code breaks the claim). The operation of a contract is one object, shared by
  all its selectors through the pointer \<^verbatim>\<open>op\<close>. For the contract with the selectors
  \<^verbatim>\<open>POST /item\<close> and \<^verbatim>\<open>GET /item\<close>, the body parameter added for \<^verbatim>\<open>POST\<close> is a
  parameter of the operation registered under \<^verbatim>\<open>GET\<close>.
\<close>

theorem get_operation_carries_body_parameter:
  "\<exists>swag'. addOperation 1 ''json'' emptyTypes (sg_s (NewSwagger [] [] [])) ''svc'' postGetContract
              = Some (Inr swag')
    \<and> map_option (map pIn \<circ> opParameters) (operationAt swag' ''/item'' Get) = Some [''body'']
    \<and> operationAt swag' ''/item'' Get = operationAt swag' ''/item'' Post"
  by (simp add: addOperation_def postGetContract_def NewSwagger_def allocOp_def Let_def
      getOp_def setOp_def setInput_def emptyTypes_def addDefinition_body_def ToUpper_GET
      replacePath_item methodSwitch_def emptyPathItem_def operationAt_def AddParam_def BodyParam_def newParameter_def
      RespondsWith_def NewOperation_def)

lemma pathParamNames_eq: "pathParams_loop (Split path CHR ''/'') [] = pathParamNames path"
  by (simp add: pathParams_loop_eq pathParamNames_def)

text \<open>
  C1 (as amended). For an input type that is a struct or a pointer to a struct,
  \<^verbatim>\<open>setInput\<close> returns, and for every field whose tag name is not empty and whose
  kind \<^verbatim>\<open>setParameter\<close> supports, the operation has a parameter of that name that is
  required and rejects empty values, a path parameter when the name is a colon-stripped
  piece of the pattern and a query parameter otherwise; every parameter of the operation
  was there before or is such a parameter of such a field, so a field with an empty tag
  or of an unsupported kind adds none.
\<close>

theorem setInput_classifies:
  assumes "inType = StructT i \<or> inType = PtrTo (StructT i)"
  shows "\<exists>op'. setInput tag \<Gamma> op path inType = Inr op'
     \<and> (\<forall>f \<in> set (declFields (\<Gamma> i)). Tag_Get (Tag f) tag \<noteq> [] \<and> supported (Type f)
            \<longrightarrow> (\<exists>p \<in> set (opParameters op'). emittedFor tag path f p))
     \<and> (\<forall>p \<in> set (opParameters op'). p \<in> set (opParameters op)
            \<or> (\<exists>f \<in> set (declFields (\<Gamma> i)).
                  Tag_Get (Tag f) tag \<noteq> [] \<and> supported (Type f) \<and> emittedFor tag path f p))"
proof -
  from assms have "setInput tag \<Gamma> op path inType
      = setInput_fields tag (pathParamNames path) (declFields (\<Gamma> i)) op"
    by (auto simp: setInput_def pathParamNames_eq)
  with setInput_fields_spec [of tag path "declFields (\<Gamma> i)" op] show ?thesis
    by auto
qed

theorem setInput_classifies_witness:
  "\<exists>op'. setInput ''json'' flagTypes (NewOperation ''get'') ''/item/:id'' (PtrTo (StructT 0)) = Inr op'
     \<and> (\<exists>p \<in> set (opParameters op'). pName p = ''id'' \<and> pIn p = ''path'' \<and> pRequired p \<and> \<not> pAllowEmptyValue p)
     \<and> (\<exists>p \<in> set (opParameters op'). pName p = ''q'' \<and> pIn p = ''query'' \<and> pRequired p \<and> \<not> pAllowEmptyValue p)"
proof -
  let ?id = "\<lparr>Tag = [(''json'', ''id'')], Type = Basic Int64K ''int64''\<rparr>"
  let ?q = "\<lparr>Tag = [(''json'', ''q'')], Type = Basic StringK ''string''\<rparr>"
  have names: "pathParamNames ''/item/:id'' = [''id'']"
    by (simp add: pathParamNames_def HasPrefix_def)
  have fs: "?id \<in> set (declFields (flagTypes 0))" "?q \<in> set (declFields (flagTypes 0))"
    by (simp_all add: flagTypes_def)
  have ok: "Tag_Get (Tag ?id) ''json'' \<noteq> [] \<and> supported (Type ?id)"
    "Tag_Get (Tag ?q) ''json'' \<noteq> [] \<and> supported (Type ?q)"
    by (simp_all add: Tag_Get_def supported_def supportedKind_def)
  from setInput_classifies [of "PtrTo (StructT 0)" 0 "''json''" flagTypes "NewOperation ''get''" "''/item/:id''"]
  obtain op' where r: "setInput ''json'' flagTypes (NewOperation ''get'') ''/item/:id'' (PtrTo (StructT 0)) = Inr op'"
    and all: "\<forall>f \<in> set (declFields (flagTypes 0)). Tag_Get (Tag f) ''json'' \<noteq> [] \<and> supported (Type f)
            \<longrightarrow> (\<exists>p \<in> set (opParameters op'). emittedFor ''json'' ''/item/:id'' f p)"
    by auto
  from all fs(1) ok(1) have "\<exists>p \<in> set (opParameters op'). emittedFor ''json'' ''/item/:id'' ?id p"
    by blast
  moreover from all fs(2) ok(2) have "\<exists>p \<in> set (opParameters op'). emittedFor ''json'' ''/item/:id'' ?q p"
    by blast
  ultimately show ?thesis
    using r by (simp add: emittedFor_def names Tag_Get_def)
qed

text \<open>
  The claim as stated fails: the field \<^verbatim>\<open>flag\<close> has a tag name and is a boolean, and
  \<^verbatim>\<open>setInput\<close> gives the operation no parameter of that name.
\<close>

theorem setInput_bool_field_counterexample:
  "Tag_Get (Tag (hd (declFields (flagTypes 0)))) ''json'' = ''flag''
   \<and> setInput ''json'' flagTypes (NewOperation ''get'') ''/item/:id'' (StructT 0)
       = Inr ((NewOperation ''get'')
           \<lparr>opParameters :=
              [\<lparr>pName = ''id'', pIn = ''path'', pRequired = True, pAllowEmptyValue = False,
                pType = ''integer'', pFormat = ''int64'', pSchema = None, pDefault = None\<rparr>,
               \<lparr>pName = ''q'', pIn = ''query'', pRequired = True, pAllowEmptyValue = False,
                pType = ''string'', pFormat = ''string'', pSchema = None, pDefault = None\<rparr>]\<rparr>)"
  by (simp add: flagTypes_def Tag_Get_def setInput_def HasPrefix_def TrimPrefix_def found_loop_def
      setParameter_def NoEmptyValues_def AsRequired_def PathParam_def QueryParam_def newParameter_def
      pTyped_def AddParam_def NewOperation_def)









lemma propertyName_trims_unicode_space:
  "propertyName [CHR ''x'', CHR 0xC2, CHR 0xA0, CHR '','', CHR ''o''] = ''x''"
  by code_simp

lemma sameOutcome_andThen:
  assumes "sameOutcome R m m'" and "\<And>x x'. R x x' \<Longrightarrow> sameOutcome S (f x) (f' x')"
  shows "sameOutcome S (andThen m f) (andThen m' f')"
proof (cases m)
  case None
  with assms(1) show ?thesis by (simp add: sameOutcome_def)
next
  case (Some r)
  show ?thesis
  proof (cases r)
    case (Inl e)
    with Some assms(1) show ?thesis by (simp add: sameOutcome_def)
  next
    case (Inr x)
    with Some assms(1) obtain x' where "m' = Some (Inr x')" "R x x'"
      by (auto simp: sameOutcome_def)
    with Some Inr assms(2) [of x x'] show ?thesis by simp
  qed
qed

lemma sameOutcome_InrD:
  "sameOutcome R r r' \<Longrightarrow> r = Some (Inr x) \<Longrightarrow> \<exists>x'. r' = Some (Inr x') \<and> R x x'"
  by (simp add: sameOutcome_def)

lemma sameOutcome_InrD':
  "sameOutcome R r r' \<Longrightarrow> r' = Some (Inr x') \<Longrightarrow> \<exists>x. r = Some (Inr x) \<and> R x x'"
  by (auto simp: sameOutcome_def split: option.splits sum.splits)

lemma onlyDefinitions_Some: "onlyDefinitions a b \<Longrightarrow> \<exists>m. Definitions b = Some m"
  by (auto simp: onlyDefinitions_def)

lemma addDefinition_fields_sim:
  assumes rec: "\<And>a b t. overBase D a b \<Longrightarrow> sameOutcome (overBase D) (rec a t) (rec b t)"
  shows "overBase D a b \<Longrightarrow>
     sameOutcome (\<lambda>(a', d) (b', d'). overBase D a' b' \<and> d = d')
       (addDefinition_fields rec tag \<Gamma> fs a def) (addDefinition_fields rec tag \<Gamma> fs b def)"
proof (induction fs arbitrary: a b def)
  case Nil
  then show ?case by (simp add: sameOutcome_def)
next
  case (Cons f fs)
  show ?case
  proof (cases "Tag_Get (Tag f) tag = []")
    case True
    with Cons show ?thesis by simp
  next
    case False
    obtain t w where w: "wrapSwitch (Type f) = Inr (t, w)"
      by (cases "Type f") (auto simp: wrapSwitch_cases)
    obtain item nested where sw: "Switch \<Gamma> t = Inr (item, nested)"
      using Switch_returns by blast
    show ?thesis
    proof (cases nested)
      case None
      with False w sw Cons show ?thesis by (simp add: Let_def)
    next
      case (Some u)
      have "sameOutcome (\<lambda>(a', d) (b', d'). overBase D a' b' \<and> d = d')
              (andThen (rec a u) (\<lambda>swag. addDefinition_fields rec tag \<Gamma> fs swag
                  (SetProperty def (propertyName (Tag_Get (Tag f) tag)) (w item))))
              (andThen (rec b u) (\<lambda>swag. addDefinition_fields rec tag \<Gamma> fs swag
                  (SetProperty def (propertyName (Tag_Get (Tag f) tag)) (w item))))"
        by (rule sameOutcome_andThen [OF rec [OF Cons.prems]]) (rule Cons.IH)
      with False w sw Some show ?thesis by (simp add: Let_def)
    qed
  qed
qed

lemma defsOf_init:
  "defsOf (if Definitions swag = None then swag\<lparr>Definitions := Some Map.empty\<rparr> else swag) = defsOf swag"
  by (auto simp: defsOf_def)

lemma addDefinition_sim:
  "overBase D a b \<Longrightarrow>
     sameOutcome (overBase D) (addDefinition n tag \<Gamma> a t) (addDefinition n tag \<Gamma> b t)"
proof (induction n arbitrary: a b t)
  case 0
  show ?case by (simp add: sameOutcome_def)
next
  case (Suc n)
  let ?rec = "addDefinition n tag \<Gamma>"
  define a0 where "a0 = (if Definitions a = None then a\<lparr>Definitions := Some Map.empty\<rparr> else a)"
  define b0 where "b0 = (if Definitions b = None then b\<lparr>Definitions := Some Map.empty\<rparr> else b)"
  have ab0: "overBase D a0 b0"
    using Suc.prems by (simp add: overBase_def a0_def b0_def defsOf_init)
  have a0S: "\<exists>m. Definitions a0 = Some m" and b0S: "\<exists>m. Definitions b0 = Some m"
    by (auto simp: a0_def b0_def)
  have fin: "sameOutcome (overBase D)
      (case Definitions a1 of None \<Rightarrow> Some (Inl NilDereference)
        | Some defs \<Rightarrow> Some (Inr (a1\<lparr>Definitions := Some (defs(k \<mapsto> d))\<rparr>)))
      (case Definitions b1 of None \<Rightarrow> Some (Inl NilDereference)
        | Some defs \<Rightarrow> Some (Inr (b1\<lparr>Definitions := Some (defs(k \<mapsto> d))\<rparr>)))"
    if "overBase D a1 b1" "\<exists>m. Definitions a1 = Some m" "\<exists>m. Definitions b1 = Some m" for a1 b1 k d
    using that by (auto simp: sameOutcome_def overBase_def defsOf_def)
  have fields: "sameOutcome (overBase D)
      (andThen (addDefinition_fields ?rec tag \<Gamma> fs a0 d0) (\<lambda>(swag, def).
         case Definitions swag of None \<Rightarrow> Some (Inl NilDereference)
          | Some defs \<Rightarrow> Some (Inr (swag\<lparr>Definitions := Some (defs(k \<mapsto> def))\<rparr>))))
      (andThen (addDefinition_fields ?rec tag \<Gamma> fs b0 d0) (\<lambda>(swag, def).
         case Definitions swag of None \<Rightarrow> Some (Inl NilDereference)
          | Some defs \<Rightarrow> Some (Inr (swag\<lparr>Definitions := Some (defs(k \<mapsto> def))\<rparr>))))" for fs d0 k
  proof -
    have keepA: "\<exists>m. Definitions a1 = Some m"
      if "addDefinition_fields ?rec tag \<Gamma> fs a0 d0 = Some (Inr (a1, d1))" for a1 d1
      using addDefinition_fields_effect [OF _ that] addDefinition_effect a0S
      by (metis onlyDefinitions_Some)
    have keepB: "\<exists>m. Definitions b1 = Some m"
      if "addDefinition_fields ?rec tag \<Gamma> fs b0 d0 = Some (Inr (b1, d1))" for b1 d1
      using addDefinition_fields_effect [OF _ that] addDefinition_effect b0S
      by (metis onlyDefinitions_Some)
    have sim: "sameOutcome (\<lambda>(a', d) (b', d'). overBase D a' b' \<and> d = d')
       (addDefinition_fields ?rec tag \<Gamma> fs a0 d0) (addDefinition_fields ?rec tag \<Gamma> fs b0 d0)"
      by (rule addDefinition_fields_sim [OF Suc.IH ab0])
    show ?thesis
    proof (cases "addDefinition_fields ?rec tag \<Gamma> fs a0 d0")
      case None
      with sim show ?thesis by (simp add: sameOutcome_def)
    next
      case (Some r)
      show ?thesis
      proof (cases r)
        case (Inl e)
        with Some sim show ?thesis by (simp add: sameOutcome_def)
      next
        case (Inr x)
        obtain a1 d1 where x: "x = (a1, d1)" by (cases x)
        with Some Inr sim obtain b1 where
          b1: "addDefinition_fields ?rec tag \<Gamma> fs b0 d0 = Some (Inr (b1, d1))" "overBase D a1 b1"
          by (auto simp: sameOutcome_def)
        from Some Inr x keepA have "\<exists>m. Definitions a1 = Some m" by simp
        moreover from b1 keepB have "\<exists>m. Definitions b1 = Some m" by simp
        ultimately show ?thesis
          using Some Inr x b1 fin [of a1 b1 k d1] by simp
      qed
    qed
  qed
  show ?case
  proof (cases "if Kind t = PtrK then Elem t else Inr t")
    case (Inl e)
    then show ?thesis
      by (simp add: addDefinition_body_def sameOutcome_def)
  next
    case (Inr t0)
    show ?thesis
    proof (cases "Fields \<Gamma> t0")
      case (Inl e)
      with Inr show ?thesis
        by (simp add: addDefinition_body_def sameOutcome_def Let_def)
    next
      case fs: (Inr fs)
      with Inr fields [of fs "Typed emptySchema ''object'' []" "Name \<Gamma> t0"] show ?thesis
        by (simp add: addDefinition_body_def Let_def a0_def b0_def)
    qed
  qed
qed

lemma overBase_empty: "overBase (defsOf swag) (swag\<lparr>Definitions := Some Map.empty\<rparr>) swag"
  by (simp add: overBase_def defsOf_def)

lemma addDefinition_again:
  assumes "addDefinition n tag \<Gamma> swag t = Some (Inr swag1)"
  shows "addDefinition n tag \<Gamma> swag1 t = Some (Inr swag1)"
proof -
  let ?E = "swag\<lparr>Definitions := Some Map.empty\<rparr>"
  from assms addDefinition_effect obtain m1 where
    s1: "swag1 = swag\<lparr>Definitions := Some m1\<rparr>"
    unfolding onlyDefinitions_def by blast
  from sameOutcome_InrD' [OF addDefinition_sim [OF overBase_empty] assms]
  obtain ew where ew: "addDefinition n tag \<Gamma> ?E t = Some (Inr ew)"
    and w: "defsOf swag1 = defsOf swag ++ defsOf ew"
    by (auto simp: overBase_def)
  have "overBase (defsOf swag1) ?E swag1"
    using overBase_empty [of swag1] s1 by simp
  from sameOutcome_InrD [OF addDefinition_sim [OF this] ew]
  obtain swag2 where r2: "addDefinition n tag \<Gamma> swag1 t = Some (Inr swag2)"
    and w2: "defsOf swag2 = defsOf swag1 ++ defsOf ew"
    by (auto simp: overBase_def)
  have "defsOf swag ++ defsOf ew ++ defsOf ew = defsOf swag ++ defsOf ew"
    by (rule ext) (auto simp: map_add_def split: option.splits)
  with w w2 have "defsOf swag2 = defsOf swag1"
    by simp
  moreover from r2 addDefinition_effect obtain m2 where
    "swag2 = swag1\<lparr>Definitions := Some m2\<rparr>"
    unfolding onlyDefinitions_def by blast
  ultimately have "swag2 = swag1"
    using s1 by (simp add: defsOf_def)
  with r2 show ?thesis by simp
qed

lemma registerTimes_again:
  assumes "addDefinition n tag \<Gamma> swag t = Some (Inr swag1)"
  shows "registerTimes k n tag \<Gamma> t swag1 = Some (Inr swag1)"
  by (induction k) (simp_all add: addDefinition_again [OF assms])

lemma registers_refl: "registers tag \<Gamma> {} m m"
  by (simp add: registers_def)

lemma registers_trans:
  assumes "registers tag \<Gamma> U m1 m2" and "registers tag \<Gamma> V m2 m3"
  shows "registers tag \<Gamma> (U \<union> V) m1 m3"
  unfolding registers_def
proof (intro conjI allI impI ballI)
  fix k
  assume "k \<notin> Name \<Gamma> ` (U \<union> V)"
  with assms show "m3 k = m1 k"
    by (simp add: registers_def image_Un)
next
  fix w
  assume w: "w \<in> U \<union> V"
  show "\<exists>v \<in> U \<union> V. Name \<Gamma> v = Name \<Gamma> w \<and> m3 (Name \<Gamma> w) = Some (typeSchema tag \<Gamma> v)"
  proof (cases "Name \<Gamma> w \<in> Name \<Gamma> ` V")
    case True
    then obtain w' where "w' \<in> V" "Name \<Gamma> w' = Name \<Gamma> w" by auto
    with assms(2) obtain v where "v \<in> V" "Name \<Gamma> v = Name \<Gamma> w"
      "m3 (Name \<Gamma> w) = Some (typeSchema tag \<Gamma> v)"
      unfolding registers_def by metis
    then show ?thesis by blast
  next
    case False
    with w have "w \<in> U" by auto
    with assms(1) obtain v where "v \<in> U" "Name \<Gamma> v = Name \<Gamma> w"
      "m2 (Name \<Gamma> w) = Some (typeSchema tag \<Gamma> v)"
      unfolding registers_def by metis
    moreover from False assms(2) have "m3 (Name \<Gamma> w) = m2 (Name \<Gamma> w)"
      by (simp add: registers_def)
    ultimately show ?thesis by auto
  qed
qed

lemma registers_dom:
  assumes "registers tag \<Gamma> U m m'"
  shows "dom m' = dom m \<union> Name \<Gamma> ` U"
proof (intro set_eqI iffI)
  fix k
  assume k: "k \<in> dom m'"
  show "k \<in> dom m \<union> Name \<Gamma> ` U"
  proof (cases "k \<in> Name \<Gamma> ` U")
    case False
    with assms have "m' k = m k" by (simp add: registers_def)
    with k show ?thesis by (simp add: dom_def)
  qed simp
next
  fix k
  assume k: "k \<in> dom m \<union> Name \<Gamma> ` U"
  show "k \<in> dom m'"
  proof (cases "k \<in> Name \<Gamma> ` U")
    case False
    with assms have "m' k = m k" by (simp add: registers_def)
    with k False show ?thesis by (simp add: dom_def)
  next
    case True
    then obtain w where "w \<in> U" "k = Name \<Gamma> w" by auto
    with assms obtain v where "m' k = Some (typeSchema tag \<Gamma> v)"
      unfolding registers_def by metis
    then show ?thesis by (simp add: dom_def)
  qed
qed

lemma fieldsReach_eq:
  "fieldsReach tag \<Gamma> fs
     = (\<Union>u \<in> {u. \<exists>f \<in> set fs. Tag_Get (Tag f) tag \<noteq> [] \<and> heldStruct (Type f) = Some u}.
          reachableTypes tag \<Gamma> u)"
  by (induction fs) (auto split: option.splits)

lemma reachableTypes_StructT:
  "reachableTypes tag \<Gamma> (StructT i) = insert (StructT i) (fieldsReach tag \<Gamma> (declFields (\<Gamma> i)))"
proof -
  have "{u. (u, StructT i) \<in> nested_struct tag \<Gamma>}
          = {u. \<exists>f \<in> set (declFields (\<Gamma> i)). Tag_Get (Tag f) tag \<noteq> [] \<and> heldStruct (Type f) = Some u}"
    by (auto simp: nested_struct_def)
  then show ?thesis
    by (subst reachableTypes_unfold) (simp add: fieldsReach_eq)
qed

lemma addDefinition_fields_registers:
  assumes "\<And>sw i sw'. rec sw (StructT i) = Some (Inr sw')
             \<Longrightarrow> registers tag \<Gamma> (reachableTypes tag \<Gamma> (StructT i)) (defsOf sw) (defsOf sw')"
  shows "addDefinition_fields rec tag \<Gamma> fs swag def = Some (Inr (swag', def'))
         \<Longrightarrow> registers tag \<Gamma> (fieldsReach tag \<Gamma> fs) (defsOf swag) (defsOf swag')"
proof (induction fs arbitrary: swag def)
  case Nil
  then show ?case by (simp add: registers_refl)
next
  case (Cons f fs)
  show ?case
  proof (cases "Tag_Get (Tag f) tag = []")
    case True
    with Cons show ?thesis by simp
  next
    case False
    obtain t w where w: "wrapSwitch (Type f) = Inr (t, w)"
      by (cases "Type f") (auto simp: wrapSwitch_cases)
    obtain item nested where sw: "Switch \<Gamma> t = Inr (item, nested)"
      using Switch_returns by blast
    from w sw have held: "heldStruct (Type f) = nested"
      using nestedType_heldStruct [of \<Gamma> "Type f"] by (simp add: nestedType_def)
    let ?def1 = "SetProperty def (propertyName (Tag_Get (Tag f) tag)) (w item)"
    show ?thesis
    proof (cases nested)
      case None
      with Cons.prems False w sw
      have "addDefinition_fields rec tag \<Gamma> fs swag ?def1 = Some (Inr (swag', def'))"
        by (simp add: Let_def)
      from Cons.IH [OF this] False held None show ?thesis by simp
    next
      case (Some u)
      with Cons.prems False w sw obtain sw1 where
        r: "rec swag u = Some (Inr sw1)"
        and rest: "addDefinition_fields rec tag \<Gamma> fs sw1 ?def1 = Some (Inr (swag', def'))"
        by (auto simp: Let_def andThen_eq_Inr)
      from Some sw obtain i where u: "u = StructT i"
        by (auto dest: Switch_nested)
      from r u have "registers tag \<Gamma> (reachableTypes tag \<Gamma> u) (defsOf swag) (defsOf sw1)"
        using assms by simp
      from registers_trans [OF this Cons.IH [OF rest]] False held Some show ?thesis
        by simp
    qed
  qed
qed

lemma addDefinition_Suc_Inr:
  assumes "addDefinition (Suc n) tag \<Gamma> swag t = Some (Inr swag')"
  shows "\<exists>i sw1 defs. registeredType t = StructT i
     \<and> addDefinition_fields (addDefinition n tag \<Gamma>) tag \<Gamma> (declFields (\<Gamma> i))
         (if Definitions swag = None then swag\<lparr>Definitions := Some Map.empty\<rparr> else swag)
         (Typed emptySchema ''object'' []) = Some (Inr (sw1, schemaOf tag \<Gamma> i))
     \<and> Definitions sw1 = Some defs
     \<and> swag' = sw1\<lparr>Definitions := Some (defs(declName (\<Gamma> i) \<mapsto> schemaOf tag \<Gamma> i))\<rparr>"
proof -
  define sw0 where "sw0 = (if Definitions swag = None then swag\<lparr>Definitions := Some Map.empty\<rparr> else swag)"
  from assms obtain t0 where t0: "(if Kind t = PtrK then Elem t else Inr t) = Inr t0"
    by (auto simp: addDefinition_body_def andThen_eq_Inr)
  from assms t0 obtain fs where fs: "Fields \<Gamma> t0 = Inr fs"
    by (auto simp: addDefinition_body_def andThen_eq_Inr Let_def)
  then obtain i where i: "t0 = StructT i" "fs = declFields (\<Gamma> i)"
    by (cases t0) auto
  from t0 i have t: "registeredType t = StructT i"
    by (auto simp: Kind_PtrK registeredType_def split: if_splits)
  from assms t0 fs obtain sw1 def1 where
    f: "addDefinition_fields (addDefinition n tag \<Gamma>) tag \<Gamma> fs sw0 (Typed emptySchema ''object'' []) = Some (Inr (sw1, def1))"
    and fin: "(case Definitions sw1 of None \<Rightarrow> Some (Inl NilDereference)
               | Some defs \<Rightarrow> Some (Inr (sw1\<lparr>Definitions := Some (defs(Name \<Gamma> t0 \<mapsto> def1))\<rparr>))) = Some (Inr swag')"
    by (auto simp: addDefinition_body_def andThen_eq_Inr Let_def sw0_def)
  have "def1 = fieldsSchema tag \<Gamma> fs (Typed emptySchema ''object'' [])"
    using addDefinition_fields_effect [OF _ f] addDefinition_effect by blast
  then have d: "def1 = schemaOf tag \<Gamma> i"
    by (simp add: schemaOf_def i)
  from fin obtain defs where "Definitions sw1 = Some defs"
    "swag' = sw1\<lparr>Definitions := Some (defs(Name \<Gamma> t0 \<mapsto> def1))\<rparr>"
    by (cases "Definitions sw1") auto
  with t f d i show ?thesis
    unfolding sw0_def by auto
qed

lemma addDefinition_registers:
  "addDefinition n tag \<Gamma> swag t = Some (Inr swag')
     \<Longrightarrow> registers tag \<Gamma> (registeredTypes tag \<Gamma> t) (defsOf swag) (defsOf swag')"
proof (induction n arbitrary: swag t swag')
  case 0
  then show ?case by simp
next
  case (Suc n)
  let ?sw0 = "if Definitions swag = None then swag\<lparr>Definitions := Some Map.empty\<rparr> else swag"
  from addDefinition_Suc_Inr [OF Suc.prems] obtain i sw1 defs where
    t: "registeredType t = StructT i"
    and f: "addDefinition_fields (addDefinition n tag \<Gamma>) tag \<Gamma> (declFields (\<Gamma> i)) ?sw0
              (Typed emptySchema ''object'' []) = Some (Inr (sw1, schemaOf tag \<Gamma> i))"
    and defs: "Definitions sw1 = Some defs"
    and swag': "swag' = sw1\<lparr>Definitions := Some (defs(declName (\<Gamma> i) \<mapsto> schemaOf tag \<Gamma> i))\<rparr>"
    by blast
  have rec: "registers tag \<Gamma> (reachableTypes tag \<Gamma> (StructT j)) (defsOf sw) (defsOf sw')"
    if "addDefinition n tag \<Gamma> sw (StructT j) = Some (Inr sw')" for sw j sw'
    using Suc.IH [OF that] by (simp add: registeredTypes_def registeredType_def)
  have "registers tag \<Gamma> (fieldsReach tag \<Gamma> (declFields (\<Gamma> i))) (defsOf ?sw0) (defsOf sw1)"
    using rec f by (rule addDefinition_fields_registers)
  then have 1: "registers tag \<Gamma> (fieldsReach tag \<Gamma> (declFields (\<Gamma> i))) (defsOf swag) (defsOf sw1)"
    by (simp only: defsOf_init)
  have 2: "registers tag \<Gamma> {StructT i} (defsOf sw1) (defsOf swag')"
    using defs swag' by (simp add: registers_def defsOf_def typeSchema_def)
  from registers_trans [OF 1 2] t show ?case
    by (simp add: registeredTypes_def reachableTypes_StructT)
qed

text \<open>
  C4. The definitions are keyed by the name of the type alone. When a registration
  returns, the definitions have an entry under the name of every struct type it has
  registered, the type itself and every type nested in it at any depth, however many
  fields hold that type; the entry is the schema of a registered type of that name; the
  names of the registered types are all the names that are new, and the entries under
  other names are as before. Registering the same type again, any number of times,
  leaves the document as it is. The entry under the name of the type a registration is
  called with is the schema of that type, so when a second type of the same name is
  registered, the entry of the first is replaced by the schema of the second.
\<close>

theorem definitions_keyed_by_name:
  assumes "addDefinition n tag \<Gamma> swag t1 = Some (Inr swag1)"
    and "addDefinition m tag \<Gamma> swag1 t2 = Some (Inr swag2)"
  shows "(\<forall>k. registerTimes k n tag \<Gamma> t1 swag1 = Some (Inr swag1))
     \<and> (t2 = t1 \<longrightarrow> swag2 = swag1)
     \<and> (\<exists>m1 m2. Definitions swag1 = Some m1 \<and> Definitions swag2 = Some m2
          \<and> registers tag \<Gamma> (registeredTypes tag \<Gamma> t1) (defsOf swag) m1
          \<and> dom m1 = dom (defsOf swag) \<union> Name \<Gamma> ` registeredTypes tag \<Gamma> t1
          \<and> registers tag \<Gamma> (registeredTypes tag \<Gamma> t2) m1 m2
          \<and> dom m2 = dom m1 \<union> Name \<Gamma> ` registeredTypes tag \<Gamma> t2
          \<and> (\<exists>i j. (t1 = StructT i \<or> t1 = PtrTo (StructT i))
                \<and> (t2 = StructT j \<or> t2 = PtrTo (StructT j))
                \<and> m1 (declName (\<Gamma> i)) = Some (schemaOf tag \<Gamma> i)
                \<and> m2 (declName (\<Gamma> j)) = Some (schemaOf tag \<Gamma> j)
                \<and> (declName (\<Gamma> j) = declName (\<Gamma> i)
                      \<longrightarrow> m2 (declName (\<Gamma> i)) = Some (schemaOf tag \<Gamma> j))))"
proof -
  have "swag2 = swag1" if "t2 = t1"
  proof -
    let ?k = "max n m"
    from assms that have "addDefinition ?k tag \<Gamma> swag t1 = Some (Inr swag1)"
      and "addDefinition ?k tag \<Gamma> swag1 t1 = Some (Inr swag2)"
      using addDefinition_mono [of n ?k] addDefinition_mono [of m ?k] by auto
    with addDefinition_again [of ?k tag \<Gamma> swag t1 swag1] show ?thesis by simp
  qed
  moreover from addDefinition_effect [OF assms(1)] addDefinition_effect [OF assms(2)]
  obtain i j m1 m2 where top:
    "t1 = StructT i \<or> t1 = PtrTo (StructT i)" "t2 = StructT j \<or> t2 = PtrTo (StructT j)"
    "Definitions swag1 = Some m1" "m1 (declName (\<Gamma> i)) = Some (schemaOf tag \<Gamma> i)"
    "Definitions swag2 = Some m2" "m2 (declName (\<Gamma> j)) = Some (schemaOf tag \<Gamma> j)"
    by blast
  have d: "defsOf swag1 = m1" "defsOf swag2 = m2"
    using top by (simp_all add: defsOf_def)
  have r1: "registers tag \<Gamma> (registeredTypes tag \<Gamma> t1) (defsOf swag) m1"
    using addDefinition_registers [OF assms(1)] d by simp
  have r2: "registers tag \<Gamma> (registeredTypes tag \<Gamma> t2) m1 m2"
    using addDefinition_registers [OF assms(2)] d by simp
  have "\<exists>i j. (t1 = StructT i \<or> t1 = PtrTo (StructT i))
                \<and> (t2 = StructT j \<or> t2 = PtrTo (StructT j))
                \<and> m1 (declName (\<Gamma> i)) = Some (schemaOf tag \<Gamma> i)
                \<and> m2 (declName (\<Gamma> j)) = Some (schemaOf tag \<Gamma> j)
                \<and> (declName (\<Gamma> j) = declName (\<Gamma> i)
                      \<longrightarrow> m2 (declName (\<Gamma> i)) = Some (schemaOf tag \<Gamma> j))"
    using top by (intro exI [of _ i] exI [of _ j]) auto
  with top(3,5) r1 r2 registers_dom [OF r1] registers_dom [OF r2]
  have "\<exists>m1 m2. Definitions swag1 = Some m1 \<and> Definitions swag2 = Some m2
          \<and> registers tag \<Gamma> (registeredTypes tag \<Gamma> t1) (defsOf swag) m1
          \<and> dom m1 = dom (defsOf swag) \<union> Name \<Gamma> ` registeredTypes tag \<Gamma> t1
          \<and> registers tag \<Gamma> (registeredTypes tag \<Gamma> t2) m1 m2
          \<and> dom m2 = dom m1 \<union> Name \<Gamma> ` registeredTypes tag \<Gamma> t2
          \<and> (\<exists>i j. (t1 = StructT i \<or> t1 = PtrTo (StructT i))
                \<and> (t2 = StructT j \<or> t2 = PtrTo (StructT j))
                \<and> m1 (declName (\<Gamma> i)) = Some (schemaOf tag \<Gamma> i)
                \<and> m2 (declName (\<Gamma> j)) = Some (schemaOf tag \<Gamma> j)
                \<and> (declName (\<Gamma> j) = declName (\<Gamma> i)
                      \<longrightarrow> m2 (declName (\<Gamma> i)) = Some (schemaOf tag \<Gamma> j)))"
    by (intro exI [of _ m1] exI [of _ m2]) simp
  ultimately show ?thesis
    using registerTimes_again [OF assms(1)] by (intro conjI allI impI)
qed

lemma registeredTypes_familyTypes:
  "registeredTypes ''json'' familyTypes (StructT 0) = {StructT 0, StructT (Suc 0), StructT 2, StructT 3}"
  "registeredTypes ''json'' familyTypes (StructT 4) = {StructT 4}"
proof -
  have rt: "registeredType (StructT i) = StructT i" for i
    by (simp add: registeredType_def)
  have 3: "reachableTypes ''json'' familyTypes (StructT 3) = {StructT 3}"
    by (simp add: reachableTypes_StructT familyTypes_def Tag_Get_def)
  have 1: "reachableTypes ''json'' familyTypes (StructT (Suc 0)) = {StructT (Suc 0), StructT 3}"
    by (subst reachableTypes_StructT) (simp add: familyTypes_def Tag_Get_def 3)
  have 2: "reachableTypes ''json'' familyTypes (StructT 2) = {StructT 2, StructT 3}"
    by (subst reachableTypes_StructT) (simp add: familyTypes_def Tag_Get_def 3)
  show "registeredTypes ''json'' familyTypes (StructT 0) = {StructT 0, StructT (Suc 0), StructT 2, StructT 3}"
    unfolding registeredTypes_def rt
    by (subst reachableTypes_StructT) (auto simp: familyTypes_def Tag_Get_def 1 2)
  show "registeredTypes ''json'' familyTypes (StructT 4) = {StructT 4}"
    unfolding registeredTypes_def rt
    by (simp add: reachableTypes_StructT familyTypes_def Tag_Get_def)
qed

theorem definitions_keyed_by_name_witness:
  "\<exists>swag1 swag2 m1 m2.
     addDefinition 3 ''json'' familyTypes (sg_s (NewSwagger [] [] [])) (StructT 0) = Some (Inr swag1)
     \<and> addDefinition 1 ''json'' familyTypes swag1 (StructT 4) = Some (Inr swag2)
     \<and> Definitions swag1 = Some m1
     \<and> dom m1 = {''Root'', ''ParentA'', ''ParentB'', ''Shared''}
     \<and> m1 ''Shared'' = Some (Schema [''object''] [] [] None [(''v'', StringProperty)])
     \<and> Definitions swag2 = Some m2
     \<and> dom m2 = {''Root'', ''ParentA'', ''ParentB'', ''Shared''}
     \<and> m2 ''Shared'' = Some (Schema [''object''] [] [] None [(''n'', Int64Property)])
     \<and> m2 ''Root'' = m1 ''Root'' \<and> m2 ''ParentA'' = m1 ''ParentA'' \<and> m2 ''ParentB'' = m1 ''ParentB''
     \<and> registerTimes 3 3 ''json'' familyTypes (StructT 0) swag1 = Some (Inr swag1)"
proof -
  let ?s0 = "sg_s (NewSwagger [] [] [])"
  obtain swag1 where r1: "addDefinition 3 ''json'' familyTypes ?s0 (StructT 0) = Some (Inr swag1)"
    by (simp add: numeral_3_eq_3 addDefinition_body_def familyTypes_def NewSwagger_def Tag_Get_def
        wrapSwitch_cases Let_def)
  from addDefinition_effect [OF r1] have "\<exists>m. Definitions swag1 = Some m"
    by (auto simp: onlyDefinitions_def)
  then obtain swag2 where r2: "addDefinition 1 ''json'' familyTypes swag1 (StructT 4) = Some (Inr swag2)"
    by (auto simp: addDefinition_body_def familyTypes_def Tag_Get_def wrapSwitch_cases Let_def)
  have s3: "typeSchema ''json'' familyTypes (StructT 3) = Schema [''object''] [] [] None [(''v'', StringProperty)]"
    by (simp add: typeSchema_def schemaOf_def familyTypes_def Tag_Get_def wrapSwitch_cases
        propertyName_def SetProperty_def Typed_def emptySchema_def)
  have s4: "schemaOf ''json'' familyTypes 4 = Schema [''object''] [] [] None [(''n'', Int64Property)]"
    by (simp add: schemaOf_def familyTypes_def Tag_Get_def wrapSwitch_cases propertyName_def
        SetProperty_def Typed_def emptySchema_def)
  have names: "declName (familyTypes 0) = ''Root''" "declName (familyTypes (Suc 0)) = ''ParentA''"
    "declName (familyTypes 2) = ''ParentB''" "declName (familyTypes 3) = ''Shared''"
    "declName (familyTypes 4) = ''Shared''"
    by (simp_all add: familyTypes_def)
  have d0: "defsOf ?s0 = Map.empty"
    by (simp add: defsOf_def NewSwagger_def)
  note inst = definitions_keyed_by_name [OF r1 r2, unfolded registeredTypes_familyTypes d0]
  from inst have again: "registerTimes 3 3 ''json'' familyTypes (StructT 0) swag1 = Some (Inr swag1)"
    by (elim conjE) (erule allE)
  from inst obtain m1 m2 i j where
    m: "Definitions swag1 = Some m1" "Definitions swag2 = Some m2"
    and g1: "registers ''json'' familyTypes {StructT 0, StructT (Suc 0), StructT 2, StructT 3} Map.empty m1"
    and dom1: "dom m1 = dom (Map.empty :: string \<rightharpoonup> schema)
                 \<union> Name familyTypes ` {StructT 0, StructT (Suc 0), StructT 2, StructT 3}"
    and g2: "registers ''json'' familyTypes {StructT 4} m1 m2"
    and dom2: "dom m2 = dom m1 \<union> Name familyTypes ` {StructT 4}"
    and j: "StructT 4 = StructT j \<or> StructT 4 = PtrTo (StructT j)"
    and top: "m2 (declName (familyTypes j)) = Some (schemaOf ''json'' familyTypes j)"
    by (elim conjE exE) (rule that)
  from j have "j = 4" by simp
  with top have e4: "m2 ''Shared'' = Some (Schema [''object''] [] [] None [(''n'', Int64Property)])"
    by (simp add: s4 familyTypes_def)
  from dom1 have d1: "dom m1 = {''Root'', ''ParentA'', ''ParentB'', ''Shared''}"
    by (simp add: names)
  with dom2 have d2: "dom m2 = {''Root'', ''ParentA'', ''ParentB'', ''Shared''}"
    by (auto simp: names)
  from g1 obtain v where "v \<in> {StructT 0, StructT (Suc 0), StructT 2, StructT 3}"
    "Name familyTypes v = Name familyTypes (StructT 3)"
    "m1 (Name familyTypes (StructT 3)) = Some (typeSchema ''json'' familyTypes v)"
    unfolding registers_def by blast
  then have e1: "m1 ''Shared'' = Some (Schema [''object''] [] [] None [(''v'', StringProperty)])"
    by (auto simp: names s3)
  from g2 have e2: "m2 ''Root'' = m1 ''Root''" "m2 ''ParentA'' = m1 ''ParentA''"
    "m2 ''ParentB'' = m1 ''ParentB''"
    unfolding registers_def by (simp_all add: names)
  from r1 r2 m d1 d2 e4 e1 e2 again show ?thesis
    by (intro exI [of _ swag1] exI [of _ swag2] exI [of _ m1] exI [of _ m2] conjI)
qed

lemma onlyDefinitions_fields:
  assumes "onlyDefinitions a b"
  shows "Store b = Store a" "Paths b = Paths a" "Tags b = Tags a" "Swagger b = Swagger a"
    "Info b = Info a" "Schemes b = Schemes a"
  using assms by (auto simp: onlyDefinitions_def)

lemma getOp_setOp: "ref < length (Store a) \<Longrightarrow> getOp (setOp a ref op) ref = Inr op"
  by (simp add: getOp_def setOp_def)

lemma getOp_Inr: "getOp a ref = Inr op \<longleftrightarrow> ref < length (Store a) \<and> op = Store a ! ref"
  by (auto simp: getOp_def)

lemma possibleErrors_loop_effect:
  assumes addDef: "\<And>sw t sw'. addDef sw t = Some (Inr sw') \<Longrightarrow> onlyDefinitions sw sw'"
  shows "possibleErrors_loop addDef \<Gamma> ref pes pm a = Some (Inr a') \<Longrightarrow> getOp a ref = Inr op
     \<Longrightarrow> Store a' = (Store a)[ref := peOp \<Gamma> pes pm op] \<and> Paths a' = Paths a \<and> sameFrame a a'"
proof (induction pes arbitrary: pm a op)
  case Nil
  then show ?case by (auto simp: getOp_Inr sameFrame_def)
next
  case (Cons pe pes)
  let ?pm = "pm(peCode pe := pm (peCode pe) @ [peItem pe])"
  from Cons.prems(1) obtain errType a1 op1 where
    et: "Indirect_Type (peMessage pe) = Inr errType"
    and a1: "addDef a errType = Some (Inr a1)"
    and op1: "getOp a1 ref = Inr op1"
    and rest: "possibleErrors_loop addDef \<Gamma> ref pes ?pm
                 (setOp a1 ref (RespondsWith op1 (peCode pe)
                    (WithDescription (WithSchema NewResponse (RefProperty (definitionsRef (Name \<Gamma> errType))))
                       (''Items: '' @ Join (?pm (peCode pe)) '', '')))) = Some (Inr a')"
    by (auto simp: andThen_eq_Inr Let_def)
  note f = onlyDefinitions_fields [OF addDef [OF a1]]
  from op1 Cons.prems(2) f have op1': "op1 = op" and lt: "ref < length (Store a)"
    by (auto simp: getOp_Inr)
  have resp: "WithDescription (WithSchema NewResponse (RefProperty (definitionsRef (Name \<Gamma> errType))))
                       (''Items: '' @ Join (?pm (peCode pe)) '', '')
              = errorResponse \<Gamma> pe (pm (peCode pe) @ [peItem pe])"
    by (simp add: errorResponse_def errTypeName_def et WithDescription_def WithSchema_def NewResponse_def)
  let ?a2 = "setOp a1 ref (RespondsWith op (peCode pe) (errorResponse \<Gamma> pe (pm (peCode pe) @ [peItem pe])))"
  have g: "getOp ?a2 ref = Inr (RespondsWith op (peCode pe) (errorResponse \<Gamma> pe (pm (peCode pe) @ [peItem pe])))"
    using lt f by (simp add: getOp_setOp)
  from rest resp op1' have rest': "possibleErrors_loop addDef \<Gamma> ref pes ?pm ?a2 = Some (Inr a')"
    by simp
  have step: "peOp \<Gamma> (pe # pes) pm op
      = peOp \<Gamma> pes ?pm (RespondsWith op (peCode pe) (errorResponse \<Gamma> pe (pm (peCode pe) @ [peItem pe])))"
    by (rule peOp.simps)
  from Cons.IH [OF rest' g]
  have "Store a' = (Store ?a2)[ref := peOp \<Gamma> (pe # pes) pm op] \<and> Paths a' = Paths ?a2 \<and> sameFrame ?a2 a'"
    unfolding step .
  with f show ?case
    by (simp add: setOp_def sameFrame_def del: peOp.simps)
qed

lemma replacePath_pathKey: "replacePath path = Inr (pathKey path)"
  by (simp add: replacePath_Join pathKey_def)

lemma methodSwitch_effect:
  assumes "getOp a ref = Inr op"
  shows "methodSwitch \<Gamma> ref inType m item a =
     Inr (setMethod m ref item,
          if withBodyMethod m then setOp a ref (AddParam op (Some (bodyParam \<Gamma> inType))) else a)"
  using assms by (simp add: methodSwitch_def setMethod_def withBodyMethod_def bodyParam_def)

lemma selectors_loop_effect:
  assumes addDef: "\<And>sw t sw'. addDef sw t = Some (Inr sw') \<Longrightarrow> onlyDefinitions sw sw'"
  shows "selectors_loop addDef tag \<Gamma> ref inType outType sels a = Some (Inr a')
     \<Longrightarrow> getOp a ref = Inr op \<Longrightarrow> Paths a = Some items
     \<Longrightarrow> Store a' = (Store a)[ref := selOp tag \<Gamma> inType sels op]
         \<and> Paths a' = Some (selItems sels ref items) \<and> sameFrame a a'"
proof (induction sels arbitrary: a op items)
  case Nil
  then show ?case by (auto simp: getOp_Inr sameFrame_def)
next
  case (Cons sel sels)
  show ?case
  proof (cases sel)
    case OtherSelector
    with Cons show ?thesis by simp
  next
    case (RESTRouteSelector meth path)
    from Cons.prems(2) have lt: "ref < length (Store a)"
      by (simp add: getOp_Inr)
    from Cons.prems(1,2) RESTRouteSelector obtain op1 a1 a2 where
      op1: "setInput tag \<Gamma> op path inType = Inr op1"
      and a1: "addDef (setOp a ref op1) inType = Some (Inr a1)"
      and a2: "addDef a1 outType = Some (Inr a2)"
      by (auto simp: andThen_eq_Inr)
    note f1 = onlyDefinitions_fields [OF addDef [OF a1]]
    note f2 = onlyDefinitions_fields [OF addDef [OF a2]]
    have g2: "getOp a2 ref = Inr op1"
      using f1 f2 lt by (simp add: getOp_def setOp_def)
    have p2: "Paths a2 = Some items"
      using f1 f2 Cons.prems(3) by (simp add: setOp_def)
    let ?op2 = "if withBodyMethod (ToUpper meth) then AddParam op1 (Some (bodyParam \<Gamma> inType)) else op1"
    let ?a3 = "if withBodyMethod (ToUpper meth) then setOp a2 ref (AddParam op1 (Some (bodyParam \<Gamma> inType))) else a2"
    let ?item = "setMethod (ToUpper meth) ref (case items (pathKey path) of None \<Rightarrow> emptyPathItem | Some i \<Rightarrow> i)"
    let ?a4 = "?a3\<lparr>Paths := Some (items(pathKey path \<mapsto> ?item))\<rparr>"
    have p3: "Paths ?a3 = Some items"
      using p2 by (simp add: setOp_def)
    have sw: "methodSwitch \<Gamma> ref inType (ToUpper meth)
                (case items (pathKey path) of None \<Rightarrow> emptyPathItem | Some i \<Rightarrow> i) a2 = Inr (?item, ?a3)"
      by (rule methodSwitch_effect [OF g2])
    from Cons.prems(1) have "selectors_loop addDef tag \<Gamma> ref inType outType
        (RESTRouteSelector meth path # sels) a = Some (Inr a')"
      using RESTRouteSelector by simp
    then have rest: "selectors_loop addDef tag \<Gamma> ref inType outType sels ?a4 = Some (Inr a')"
      unfolding selectors_loop.simps(3)
      using Cons.prems(2) op1 a1 a2 p2 p3 sw
      by (simp add: replacePath_pathKey del: selectors_loop.simps)
    have g4: "getOp ?a4 ref = Inr ?op2"
      using g2 by (auto simp: getOp_Inr setOp_def)
    have p4: "Paths ?a4 = Some (items(pathKey path \<mapsto> ?item))"
      by simp
    from Cons.IH [OF rest g4 p4]
    have "Store a' = (Store ?a4)[ref := selOp tag \<Gamma> inType sels ?op2]
         \<and> Paths a' = Some (selItems sels ref (items(pathKey path \<mapsto> ?item))) \<and> sameFrame ?a4 a'" .
    moreover have "selOp tag \<Gamma> inType (sel # sels) op = selOp tag \<Gamma> inType sels ?op2"
      using RESTRouteSelector op1 by (simp add: Let_def)
    moreover have "(Store ?a4)[ref := x] = (Store a)[ref := x]" for x
      using f1 f2 by (simp add: setOp_def)
    moreover have "sameFrame a ?a4"
      using f1 f2 by (simp add: sameFrame_def setOp_def)
    ultimately show ?thesis
      using RESTRouteSelector by (simp add: sameFrame_def)
  qed
qed

lemma addDefinition_only: "addDefinition n tag \<Gamma> sw t = Some (Inr sw') \<Longrightarrow> onlyDefinitions sw sw'"
  using addDefinition_effect by blast

lemma addOperation_effect:
  assumes "addOperation fuel tag \<Gamma> a serviceName c = Some (Inr a')"
  shows "Store a' = Store a @ [contractOp tag \<Gamma> serviceName c]
     \<and> Paths a' = Some (selItems (cSelectors c) (length (Store a)) (itemsOf a))
     \<and> sameFrame a a'"
proof -
  define a0 where "a0 = (if Paths a = None then a\<lparr>Paths := Some Map.empty\<rparr> else a)"
  have a0: "Paths a0 = Some (itemsOf a)" "Store a0 = Store a" "sameFrame a a0"
    by (auto simp: a0_def itemsOf_def sameFrame_def)
  from assms obtain inType outType where
    it: "Indirect_Type (cInput c) = Inr inType" and ot: "Indirect_Type (cOutput c) = Inr outType"
    by (auto simp: addOperation_def andThen_eq_Inr Let_def)
  define op0 where "op0 = (RespondsWith (NewOperation (cName c)) 200
                    (WithSchema NewResponse (RefProperty (definitionsRef (Name \<Gamma> outType)))))
                 \<lparr>opTags := [serviceName],
                  opProduces := [''application/json''],
                  opConsumes := [''application/json'']\<rparr>"
  define a1 where "a1 = a0\<lparr>Store := Store a0 @ [op0]\<rparr>"
  define ref where "ref = length (Store a0)"
  from assms it ot obtain a2 where
    pe: "possibleErrors_loop (addDefinition fuel tag \<Gamma>) \<Gamma> ref (cPossibleErrors c) (\<lambda>code. []) a1 = Some (Inr a2)"
    and sel: "selectors_loop (addDefinition fuel tag \<Gamma>) tag \<Gamma> ref inType outType (cSelectors c) a2 = Some (Inr a')"
    by (auto simp: addOperation_def andThen_eq_Inr Let_def allocOp_def a0_def op0_def a1_def ref_def)
  have g1: "getOp a1 ref = Inr op0"
    by (simp add: getOp_def a1_def ref_def)
  from possibleErrors_loop_effect [OF addDefinition_only pe g1]
  have e2: "Store a2 = (Store a1)[ref := peOp \<Gamma> (cPossibleErrors c) (\<lambda>code. []) op0]"
    "Paths a2 = Paths a1" "sameFrame a1 a2"
    by auto
  have g2: "getOp a2 ref = Inr (peOp \<Gamma> (cPossibleErrors c) (\<lambda>code. []) op0)"
    using e2(1) by (simp add: getOp_def a1_def ref_def)
  have p2: "Paths a2 = Some (itemsOf a)"
    using e2(2) a0 by (simp add: a1_def)
  from selectors_loop_effect [OF addDefinition_only sel g2 p2]
  have e3: "Store a' = (Store a2)[ref := selOp tag \<Gamma> inType (cSelectors c) (peOp \<Gamma> (cPossibleErrors c) (\<lambda>code. []) op0)]"
    "Paths a' = Some (selItems (cSelectors c) ref (itemsOf a))" "sameFrame a2 a'"
    by auto
  have "contractOp tag \<Gamma> serviceName c
          = selOp tag \<Gamma> inType (cSelectors c) (peOp \<Gamma> (cPossibleErrors c) (\<lambda>code. []) op0)"
    by (simp add: contractOp_def it ot op0_def Let_def)
  with e3 e2 a0 show ?thesis
    by (simp add: a1_def ref_def sameFrame_def)
qed

lemma AddParam_responses [simp]: "opResponses (AddParam op p) = opResponses op"
  by (simp add: AddParam_def split: option.splits)

lemma setInput_fields_responses:
  "setInput_fields tag pps fs op = Inr op' \<Longrightarrow> opResponses op' = opResponses op"
proof (induction fs arbitrary: op)
  case Nil
  then show ?case by simp
next
  case (Cons f fs)
  then show ?case
    unfolding setInput_fields_step by (auto split: sum.splits)
qed

lemma setInput_responses: "setInput tag \<Gamma> op path t = Inr op' \<Longrightarrow> opResponses op' = opResponses op"
  by (auto simp: setInput_def Let_def split: sum.splits dest: setInput_fields_responses)

lemma selOp_responses: "opResponses (selOp tag \<Gamma> inType sels op) = opResponses op"
proof (induction sels arbitrary: op)
  case Nil
  show ?case by simp
next
  case (Cons sel sels)
  show ?case
  proof (cases sel)
    case OtherSelector
    with Cons show ?thesis by simp
  next
    case (RESTRouteSelector meth path)
    with Cons show ?thesis
      by (auto simp: Let_def split: sum.splits dest: setInput_responses)
  qed
qed

lemma responseFor_RespondsWith:
  "responseFor (RespondsWith op code r) code' = (if code' = code then Some r else responseFor op code')"
  by (auto simp: responseFor_def RespondsWith_def Let_def split: option.splits)

lemma peOp_responses:
  assumes "\<And>code. pm code = map peItem (filter (\<lambda>q. peCode q = code) done)"
    and "\<And>q. q \<in> set done \<Longrightarrow> responseFor op (peCode q)
            = Some (errorResponse \<Gamma> (last (filter (\<lambda>x. peCode x = peCode q) done)) (pm (peCode q)))"
    and "q \<in> set (done @ pes)"
  shows "responseFor (peOp \<Gamma> pes pm op) (peCode q)
           = Some (errorResponse \<Gamma> (last (filter (\<lambda>x. peCode x = peCode q) (done @ pes)))
                     (map peItem (filter (\<lambda>x. peCode x = peCode q) (done @ pes))))"
  using assms
proof (induction pes arbitrary: pm op "done")
  case Nil
  then show ?case by simp
next
  case (Cons pe pes)
  let ?pm = "pm(peCode pe := pm (peCode pe) @ [peItem pe])"
  let ?op = "RespondsWith op (peCode pe) (errorResponse \<Gamma> pe (pm (peCode pe) @ [peItem pe]))"
  have 1: "?pm code = map peItem (filter (\<lambda>q. peCode q = code) (done @ [pe]))" for code
    using Cons.prems(1) by simp
  have 2: "responseFor ?op (peCode x)
            = Some (errorResponse \<Gamma> (last (filter (\<lambda>y. peCode y = peCode x) (done @ [pe]))) (?pm (peCode x)))"
    if "x \<in> set (done @ [pe])" for x
  proof (cases "peCode x = peCode pe")
    case True
    then show ?thesis by (simp add: responseFor_RespondsWith)
  next
    case False
    with that have "x \<in> set done" by auto
    from Cons.prems(2) [OF this] False show ?thesis
      by (simp add: responseFor_RespondsWith)
  qed
  from Cons.prems(3) have 3: "q \<in> set ((done @ [pe]) @ pes)" by simp
  have "responseFor (peOp \<Gamma> pes ?pm ?op) (peCode q)
           = Some (errorResponse \<Gamma> (last (filter (\<lambda>x. peCode x = peCode q) ((done @ [pe]) @ pes)))
                     (map peItem (filter (\<lambda>x. peCode x = peCode q) ((done @ [pe]) @ pes))))"
    by (rule Cons.IH [OF 1 2 3])
  then show ?case
    by (simp only: peOp.simps append_assoc append_Cons append_Nil)
qed

lemma slotOf_setMethod: "slotOf m = Some slot \<Longrightarrow> slot (setMethod m x item) = Some x"
  by (auto simp: slotOf_def setMethod_def split: if_splits)

lemma slot_setMethod_keep:
  "slotOf m' = Some slot \<Longrightarrow> slot item = Some x \<Longrightarrow> slot (setMethod m x item) = Some x"
  by (auto simp: slotOf_def setMethod_def split: if_splits)

lemma selItems_keeps_slot:
  "slotOf m' = Some slot \<Longrightarrow> items p = Some item \<Longrightarrow> slot item = Some x
     \<Longrightarrow> \<exists>item'. selItems sels x items p = Some item' \<and> slot item' = Some x"
proof (induction sels arbitrary: items item)
  case Nil
  then show ?case by simp
next
  case (Cons sel sels)
  show ?case
  proof (cases sel)
    case OtherSelector
    with Cons show ?thesis by simp
  next
    case (RESTRouteSelector meth path)
    show ?thesis
    proof (cases "pathKey path = p")
      case True
      let ?item = "setMethod (ToUpper meth) x item"
      have "slot ?item = Some x"
        using Cons.prems by (simp add: slot_setMethod_keep)
      moreover have "(items(p \<mapsto> ?item)) p = Some ?item" by simp
      ultimately have "\<exists>item'. selItems sels x (items(p \<mapsto> ?item)) p = Some item' \<and> slot item' = Some x"
        using Cons.IH [OF Cons.prems(1)] by blast
      then show ?thesis
        using RESTRouteSelector True Cons.prems(2) by simp
    next
      case False
      let ?items = "items(pathKey path \<mapsto>
          setMethod (ToUpper meth) x (case items (pathKey path) of None \<Rightarrow> emptyPathItem | Some i \<Rightarrow> i))"
      have "?items p = Some item"
        using False Cons.prems(2) by simp
      have "\<exists>item'. selItems sels x ?items p = Some item' \<and> slot item' = Some x"
        using Cons.prems(1) \<open>?items p = Some item\<close> Cons.prems(3) by (rule Cons.IH)
      then show ?thesis
        using RESTRouteSelector by simp
    qed
  qed
qed

lemma selItems_slot:
  "RESTRouteSelector meth path \<in> set sels \<Longrightarrow> slotOf (ToUpper meth) = Some slot
     \<Longrightarrow> \<exists>item. selItems sels x items (pathKey path) = Some item \<and> slot item = Some x"
proof (induction sels arbitrary: items)
  case Nil
  then show ?case by simp
next
  case (Cons sel sels)
  show ?case
  proof (cases "sel = RESTRouteSelector meth path")
    case True
    let ?item = "setMethod (ToUpper meth) x (case items (pathKey path) of None \<Rightarrow> emptyPathItem | Some i \<Rightarrow> i)"
    have "slot ?item = Some x"
      using Cons.prems(2) by (rule slotOf_setMethod)
    moreover have "(items(pathKey path \<mapsto> ?item)) (pathKey path) = Some ?item" by simp
    ultimately have "\<exists>item'. selItems sels x (items(pathKey path \<mapsto> ?item)) (pathKey path) = Some item'
        \<and> slot item' = Some x"
      using selItems_keeps_slot [OF Cons.prems(2)] by blast
    then show ?thesis
      using True by simp
  next
    case False
    with Cons.prems have "RESTRouteSelector meth path \<in> set sels" by simp
    from Cons.IH [OF this Cons.prems(2)] show ?thesis
      by (cases sel) simp_all
  qed
qed

text \<open>
  C8. When \<^verbatim>\<open>addOperation\<close> returns, the operation it has built for the contract, which
  is the operation under the path and meth of each of the contract's selectors, has
  for every code among the possible errors one response: its description is
  \<^verbatim>\<open>Items: \<close> followed by the items of all entries with that code, in the order of
  their declaration and joined by a comma and a space, and its schema is the reference
  to the definition named by the payload type of the last entry with that code. (The
  response for the code 0 is the default response of the operation.)
\<close>

theorem possible_errors_merged_per_code:
  assumes "addOperation fuel tag \<Gamma> swag serviceName c = Some (Inr swag')"
  shows "\<exists>op. getOp swag' (length (Store swag)) = Inr op
     \<and> (\<forall>sel \<in> set (cSelectors c). \<forall>slot.
           sel \<noteq> OtherSelector \<and> slotOf (ToUpper (GetMethod sel)) = Some slot
             \<longrightarrow> operationAt swag' (pathKey (GetPath sel)) slot = Some op)
     \<and> (\<forall>pe \<in> set (cPossibleErrors c).
           responseFor op (peCode pe)
             = Some \<lparr>rDescription = ''Items: '' @
                       Join (map peItem (filter (\<lambda>q. peCode q = peCode pe) (cPossibleErrors c))) '', '',
                     rSchema = Some (RefProperty (definitionsRef
                       (errTypeName \<Gamma> (last (filter (\<lambda>q. peCode q = peCode pe) (cPossibleErrors c))))))\<rparr>)"
proof -
  note e = addOperation_effect [OF assms]
  from e have g: "getOp swag' (length (Store swag)) = Inr (contractOp tag \<Gamma> serviceName c)"
    by (simp add: getOp_def)
  have "operationAt swag' (pathKey (GetPath sel)) slot = Some (contractOp tag \<Gamma> serviceName c)"
    if "sel \<in> set (cSelectors c)" "sel \<noteq> OtherSelector" "slotOf (ToUpper (GetMethod sel)) = Some slot"
    for sel slot
  proof -
    from that(2) obtain meth path where sel: "sel = RESTRouteSelector meth path"
      by (cases sel) auto
    from selItems_slot [of meth path "cSelectors c" slot "length (Store swag)" "itemsOf swag"] that sel
    obtain item where "selItems (cSelectors c) (length (Store swag)) (itemsOf swag) (pathKey path) = Some item"
      "slot item = Some (length (Store swag))"
      by auto
    with e g sel show ?thesis
      by (simp add: operationAt_def)
  qed
  moreover have "responseFor (contractOp tag \<Gamma> serviceName c) (peCode pe)
          = Some (errorResponse \<Gamma> (last (filter (\<lambda>x. peCode x = peCode pe) (cPossibleErrors c)))
                     (map peItem (filter (\<lambda>x. peCode x = peCode pe) (cPossibleErrors c))))"
    if "pe \<in> set (cPossibleErrors c)" for pe
    using peOp_responses [of "\<lambda>code. []" "[]" _ \<Gamma> pe "cPossibleErrors c"] that
    by (simp add: contractOp_def Let_def responseFor_def selOp_responses)
  ultimately show ?thesis
    using g by (simp add: errorResponse_def)
qed

theorem possible_errors_merged_per_code_witness:
  "\<exists>swag' op. addOperation 1 ''json'' errorTypes (sg_s (NewSwagger [] [] [])) ''svc'' errorsContract
                 = Some (Inr swag')
     \<and> operationAt swag' ''/some/{x}'' Get = Some op
     \<and> responseFor op 404
         = Some \<lparr>rDescription = ''Items: ITEM1, ITEM2'',
                 rSchema = Some (RefProperty ''#/definitions/sampleError'')\<rparr>
     \<and> responseFor op 504
         = Some \<lparr>rDescription = ''Items: SERVER'',
                 rSchema = Some (RefProperty ''#/definitions/sampleError'')\<rparr>"
proof -
  let ?s0 = "sg_s (NewSwagger [] [] [])"
  have up: "ToUpper ''get'' = ''GET''"
    by code_simp
  have key: "pathKey ''/some/:x'' = ''/some/{x}''"
    by (simp add: pathKey_def placeholder_def HasPrefix_def)
  have rp: "replacePath ''/some/:x'' = Inr ''/some/{x}''"
    by (simp add: replacePath_pathKey key)
  obtain swag' where run: "addOperation 1 ''json'' errorTypes ?s0 ''svc'' errorsContract = Some (Inr swag')"
    by (simp add: addOperation_def errorsContract_def NewSwagger_def allocOp_def Let_def
        getOp_def setOp_def setInput_def errorTypes_def addDefinition_body_def up rp
        methodSwitch_def Tag_Get_def wrapSwitch_cases)
  from possible_errors_merged_per_code [OF run] obtain op where
    sel: "\<forall>sel \<in> set (cSelectors errorsContract). \<forall>slot.
           sel \<noteq> OtherSelector \<and> slotOf (ToUpper (GetMethod sel)) = Some slot
             \<longrightarrow> operationAt swag' (pathKey (GetPath sel)) slot = Some op"
    and pe: "\<forall>pe \<in> set (cPossibleErrors errorsContract).
           responseFor op (peCode pe)
             = Some \<lparr>rDescription = ''Items: '' @
                       Join (map peItem (filter (\<lambda>q. peCode q = peCode pe) (cPossibleErrors errorsContract))) '', '',
                     rSchema = Some (RefProperty (definitionsRef
                       (errTypeName errorTypes (last (filter (\<lambda>q. peCode q = peCode pe) (cPossibleErrors errorsContract))))))\<rparr>"
    by blast
  from sel have 1: "operationAt swag' ''/some/{x}'' Get = Some op"
    by (simp add: errorsContract_def up key slotOf_def)
  from pe have 2: "responseFor op 404
         = Some \<lparr>rDescription = ''Items: ITEM1, ITEM2'',
                 rSchema = Some (RefProperty ''#/definitions/sampleError'')\<rparr>"
    and 3: "responseFor op 504
         = Some \<lparr>rDescription = ''Items: SERVER'',
                 rSchema = Some (RefProperty ''#/definitions/sampleError'')\<rparr>"
    by (simp_all add: errorsContract_def errTypeName_def definitionsRef_def errorTypes_def)
  from run 1 2 3 show ?thesis by blast
qed

lemma WriteTo_returns:
  assumes "WriteTo marshal write fuel \<Gamma> sg w services = Some (Inr (err, w', sg'))"
  shows "\<exists>swag. services_loop fuel (tagName sg) \<Gamma> services (sg_s sg) = Some (Inr swag)
         \<and> sg' = sg\<lparr>sg_s := swag\<rparr>
         \<and> (case marshal swag of
               Inl e \<Rightarrow> err = Some e \<and> w' = w
             | Inr swaggerJSON \<Rightarrow> write w swaggerJSON = (w', err))"
proof (cases "services_loop fuel (tagName sg) \<Gamma> services (sg_s sg)")
  case None
  with assms show ?thesis by (simp add: WriteTo_def)
next
  case (Some r)
  show ?thesis
  proof (cases r)
    case (Inl p)
    with Some assms show ?thesis by (simp add: WriteTo_def)
  next
    case (Inr swag)
    show ?thesis
    proof (cases "marshal swag")
      case (Inl e)
      with Some Inr assms show ?thesis by (auto simp: WriteTo_def)
    next
      case js: (Inr js)
      with Some Inr assms show ?thesis
        by (cases "write w js") (auto simp: WriteTo_def)
    qed
  qed
qed

text \<open>
  C5. \<^verbatim>\<open>WriteTo\<close> and \<^verbatim>\<open>WriteToFile\<close> return an error only from the creation of
  the file, from the encoder or from the writer. When \<^verbatim>\<open>WriteTo\<close> returns, the loop
  over all services has returned a document; if the encoder fails on it, its error is
  returned and the destination is as it was; otherwise the destination has been
  written once, with the encoding of that document, and the error returned is the
  writer's. When \<^verbatim>\<open>WriteToFile\<close> returns, either the creation has failed, its error is
  returned and nothing else has happened, or the rest is \<^verbatim>\<open>WriteTo\<close> on the created
  file. A panic of the loop, or a loop that does not return, is no returned error, and
  then the writer is never called.
\<close>

theorem WriteTo_errors_from_encode_or_write:
  "(WriteTo marshal write fuel \<Gamma> sg w services = Some (Inr (err, w', sg')) \<longrightarrow>
      (\<exists>swag. services_loop fuel (tagName sg) \<Gamma> services (sg_s sg) = Some (Inr swag)
         \<and> sg' = sg\<lparr>sg_s := swag\<rparr>
         \<and> (case marshal swag of
               Inl e \<Rightarrow> err = Some e \<and> w' = w
             | Inr swaggerJSON \<Rightarrow> write w swaggerJSON = (w', err))))
   \<and> (WriteToFile marshal create fwrite fuel \<Gamma> sg fs filename services = Some (Inr (err, fs', sg')) \<longrightarrow>
      (case create fs filename of
         Inl e \<Rightarrow> err = Some e \<and> fs' = fs \<and> sg' = sg
       | Inr fs1 \<Rightarrow>
           (\<exists>swag. services_loop fuel (tagName sg) \<Gamma> services (sg_s sg) = Some (Inr swag)
              \<and> sg' = sg\<lparr>sg_s := swag\<rparr>
              \<and> (case marshal swag of
                    Inl e \<Rightarrow> err = Some e \<and> fs' = fs1
                  | Inr swaggerJSON \<Rightarrow> fwrite filename fs1 swaggerJSON = (fs', err)))))
   \<and> (\<forall>p. services_loop fuel (tagName sg) \<Gamma> services (sg_s sg) = Some (Inl p) \<longrightarrow>
          WriteTo marshal write fuel \<Gamma> sg w services = Some (Inl p))
   \<and> (services_loop fuel (tagName sg) \<Gamma> services (sg_s sg) = None \<longrightarrow>
          WriteTo marshal write fuel \<Gamma> sg w services = None)"
proof -
  have 2: "(case create fs filename of
         Inl e \<Rightarrow> err = Some e \<and> fs' = fs \<and> sg' = sg
       | Inr fs1 \<Rightarrow>
           (\<exists>swag. services_loop fuel (tagName sg) \<Gamma> services (sg_s sg) = Some (Inr swag)
              \<and> sg' = sg\<lparr>sg_s := swag\<rparr>
              \<and> (case marshal swag of
                    Inl e \<Rightarrow> err = Some e \<and> fs' = fs1
                  | Inr swaggerJSON \<Rightarrow> fwrite filename fs1 swaggerJSON = (fs', err))))"
    if "WriteToFile marshal create fwrite fuel \<Gamma> sg fs filename services = Some (Inr (err, fs', sg'))"
  proof (cases "create fs filename")
    case (Inl e)
    with that show ?thesis by (simp add: WriteToFile_def)
  next
    case (Inr fs1)
    with that have "WriteTo marshal (fwrite filename) fuel \<Gamma> sg fs1 services = Some (Inr (err, fs', sg'))"
      by (simp add: WriteToFile_def)
    from WriteTo_returns [OF this] Inr show ?thesis by simp
  qed
  show ?thesis
    using WriteTo_returns [of marshal "write" fuel \<Gamma> sg w services err w' sg'] 2
    by (simp add: WriteTo_def)
qed

theorem WriteTo_errors_from_encode_or_write_witness:
  "WriteTo failingMarshal appendWrite 0 emptyTypes (NewSwagger ''t'' ''v'' [])
       [''written before''] [\<lparr>svcName = ''svc'', svcContracts = []\<rparr>]
     = Some (Inr (Some ''unsupported value'', [''written before''],
         (NewSwagger ''t'' ''v'' [])\<lparr>sg_s := addTag (sg_s (NewSwagger ''t'' ''v'' []))
            \<lparr>svcName = ''svc'', svcContracts = []\<rparr>\<rparr>))"
proof -
  let ?sg = "NewSwagger ''t'' ''v'' []"
  let ?svc = "\<lparr>svcName = ''svc'', svcContracts = []\<rparr>"
  obtain err w' sg' where
    r: "WriteTo failingMarshal appendWrite 0 emptyTypes ?sg [''written before''] [?svc]
          = Some (Inr (err, w', sg'))"
    by (simp add: WriteTo_def failingMarshal_def)
  have loop: "services_loop 0 (tagName ?sg) emptyTypes [?svc] (sg_s ?sg) = Some (Inr (addTag (sg_s ?sg) ?svc))"
    by simp
  note inst = WriteTo_errors_from_encode_or_write
    [of failingMarshal appendWrite 0 emptyTypes ?sg "[''written before'']" "[?svc]" err w' sg',
     THEN conjunct1]
  from inst r loop
  have "err = Some ''unsupported value'' \<and> w' = [''written before'']
          \<and> sg' = ?sg\<lparr>sg_s := addTag (sg_s ?sg) ?svc\<rparr>"
    by (simp add: failingMarshal_def)
  with r show ?thesis by simp
qed

lemma sameOutcome_refl: "(\<And>x. r = Some (Inr x) \<Longrightarrow> R x x) \<Longrightarrow> sameOutcome R r r"
  by (auto simp: sameOutcome_def split: option.splits sum.splits)

lemma sameOutcome_strengthen:
  assumes "sameOutcome R r r'"
    and "\<And>x x'. r = Some (Inr x) \<Longrightarrow> r' = Some (Inr x') \<Longrightarrow> R x x' \<Longrightarrow> S x x'"
  shows "sameOutcome S r r'"
  using assms by (auto simp: sameOutcome_def split: option.splits sum.splits)

lemma sameOutcome_lift:
  assumes "case r of Inl e \<Rightarrow> r' = Inl e | Inr x \<Rightarrow> (\<exists>x'. r' = Inr x' \<and> R x x')"
  shows "sameOutcome R (lift r) (lift r')"
  using assms by (auto simp: sameOutcome_def lift_def split: sum.splits)

lemma setInput_fields_returns:
  "\<exists>op'. setInput_fields tag pps fs op = Inr op'"
proof (induction fs arbitrary: op)
  case Nil
  show ?case by simp
next
  case (Cons f fs)
  have "\<exists>p. fieldParam tag pps f = Inr p"
    using setParameter_cases [of _ "Type f"]
    by (auto simp: fieldParam_def Let_def)
  then show ?case
    unfolding setInput_fields_step using Cons.IH by auto
qed

lemma setInput_outcome:
  "case setInput tag \<Gamma> op path t of
     Inl e \<Rightarrow> setInput tag \<Gamma> op2 path t = Inl e
   | Inr x \<Rightarrow> (\<exists>y. setInput tag \<Gamma> op2 path t = Inr y)"
proof (cases "if Kind t = PtrK then Elem t else Inr t")
  case (Inl e)
  then show ?thesis by (simp add: setInput_def)
next
  case (Inr t')
  show ?thesis
  proof (cases "Fields \<Gamma> t'")
    case (Inl e)
    with Inr show ?thesis by (simp add: setInput_def Let_def)
  next
    case fs: (Inr fs)
    obtain x where "setInput_fields tag (pathParams_loop (Split path CHR ''/'') []) fs op = Inr x"
      using setInput_fields_returns by blast
    moreover obtain y where "setInput_fields tag (pathParams_loop (Split path CHR ''/'') []) fs op2 = Inr y"
      using setInput_fields_returns by blast
    ultimately show ?thesis
      using Inr fs by (simp add: setInput_def Let_def)
  qed
qed

lemma sameOutcome_addDef:
  assumes sim: "\<And>a b t. overBase D a b \<Longrightarrow> sameOutcome (overBase D) (addDef a t) (addDef b t)"
    and only: "\<And>sw t sw'. addDef sw t = Some (Inr sw') \<Longrightarrow> onlyDefinitions sw sw'"
    and rel: "related D ra rb a b"
  shows "sameOutcome (related D ra rb) (addDef a t) (addDef b t)"
proof (rule sameOutcome_strengthen)
  from rel have "overBase D a b"
    by (simp add: related_def)
  then show "sameOutcome (overBase D) (addDef a t) (addDef b t)"
    by (rule sim)
next
  fix x x'
  assume ra: "addDef a t = Some (Inr x)" and rb: "addDef b t = Some (Inr x')" and ob: "overBase D x x'"
  note fa = onlyDefinitions_fields [OF only [OF ra]]
  note fb = onlyDefinitions_fields [OF only [OF rb]]
  from rel ob fa(1,2) fb(1,2) show "related D ra rb x x'"
    by (simp add: related_def)
qed

lemma overBase_frame:
  "overBase D a b \<Longrightarrow> defsOf a' = defsOf a \<Longrightarrow> defsOf b' = defsOf b \<Longrightarrow> overBase D a' b'"
  by (simp add: overBase_def)

lemma defsOf_frame [simp]:
  "defsOf (setOp a ref op) = defsOf a"
  "defsOf (a\<lparr>Paths := ps\<rparr>) = defsOf a"
  "defsOf (a\<lparr>Store := st\<rparr>) = defsOf a"
  "defsOf (a\<lparr>Tags := ts\<rparr>) = defsOf a"
  by (simp_all add: defsOf_def setOp_def)

lemma selectors_loop_sim:
  assumes sim: "\<And>a b t. overBase D a b \<Longrightarrow> sameOutcome (overBase D) (addDef a t) (addDef b t)"
    and only: "\<And>sw t sw'. addDef sw t = Some (Inr sw') \<Longrightarrow> onlyDefinitions sw sw'"
  shows "related D ra rb a b \<Longrightarrow>
     sameOutcome (overBase D)
       (selectors_loop addDef tag \<Gamma> ra inType outType sels a)
       (selectors_loop addDef tag \<Gamma> rb inType outType sels b)"
proof (induction sels arbitrary: a b)
  case Nil
  then show ?case by (simp add: sameOutcome_def related_def)
next
  case (Cons sel sels)
  show ?case
  proof (cases sel)
    case OtherSelector
    with Cons show ?thesis by simp
  next
    case (RESTRouteSelector meth path)
    from Cons.prems obtain opa opb where
      ga: "getOp a ra = Inr opa" and gb: "getOp b rb = Inr opb"
      by (auto simp: related_def getOp_def)
    let ?K = "\<lambda>r a2.
        (case Paths a2 of None \<Rightarrow> Some (Inl NilDereference)
         | Some paths \<Rightarrow>
            (let pathItem = (case paths (pathKey path) of None \<Rightarrow> emptyPathItem | Some i \<Rightarrow> i) in
             andThen (lift (methodSwitch \<Gamma> r inType (ToUpper meth) pathItem a2))
               (\<lambda>(pathItem, swag).
                  (case Paths swag of
                     None \<Rightarrow> Some (Inl NilDereference)
                   | Some paths \<Rightarrow>
                       selectors_loop addDef tag \<Gamma> r inType outType sels
                         (swag\<lparr>Paths := Some (paths(pathKey path \<mapsto> pathItem))\<rparr>)))))"
    have tail: "sameOutcome (overBase D) (?K ra a2) (?K rb b2)"
      if rel: "related D ra rb a2 b2" for a2 b2
    proof -
      from rel obtain pa pb oa ob where
        pa: "Paths a2 = Some pa" and pb: "Paths b2 = Some pb"
        and oa: "getOp a2 ra = Inr oa" and ob: "getOp b2 rb = Inr ob"
        by (auto simp: related_def getOp_def)
      let ?a3 = "if withBodyMethod (ToUpper meth) then setOp a2 ra (AddParam oa (Some (bodyParam \<Gamma> inType))) else a2"
      let ?b3 = "if withBodyMethod (ToUpper meth) then setOp b2 rb (AddParam ob (Some (bodyParam \<Gamma> inType))) else b2"
      let ?ia = "setMethod (ToUpper meth) ra (case pa (pathKey path) of None \<Rightarrow> emptyPathItem | Some i \<Rightarrow> i)"
      let ?ib = "setMethod (ToUpper meth) rb (case pb (pathKey path) of None \<Rightarrow> emptyPathItem | Some i \<Rightarrow> i)"
      have p3: "Paths ?a3 = Some pa" "Paths ?b3 = Some pb"
        using pa pb by (simp_all add: setOp_def)
      have "related D ra rb (?a3\<lparr>Paths := Some (pa(pathKey path \<mapsto> ?ia))\<rparr>)
              (?b3\<lparr>Paths := Some (pb(pathKey path \<mapsto> ?ib))\<rparr>)"
        using rel by (auto simp: related_def overBase_def setOp_def)
      then have "sameOutcome (overBase D)
          (selectors_loop addDef tag \<Gamma> ra inType outType sels (?a3\<lparr>Paths := Some (pa(pathKey path \<mapsto> ?ia))\<rparr>))
          (selectors_loop addDef tag \<Gamma> rb inType outType sels (?b3\<lparr>Paths := Some (pb(pathKey path \<mapsto> ?ib))\<rparr>))"
        by (rule Cons.IH)
      then show ?thesis
        using pa pb p3 by (simp add: methodSwitch_effect [OF oa] methodSwitch_effect [OF ob] Let_def)
    qed
    have defs: "sameOutcome (overBase D)
        (andThen (addDef (setOp a ra x) inType) (\<lambda>swag. andThen (addDef swag outType) (?K ra)))
        (andThen (addDef (setOp b rb y) inType) (\<lambda>swag. andThen (addDef swag outType) (?K rb)))"
      for x y
    proof (rule sameOutcome_andThen [where R = "related D ra rb"])
      have r0: "related D ra rb (setOp a ra x) (setOp b rb y)"
        using Cons.prems by (simp add: related_def overBase_def setOp_def)
      show "sameOutcome (related D ra rb) (addDef (setOp a ra x) inType) (addDef (setOp b rb y) inType)"
        using sim only r0 by (rule sameOutcome_addDef)
    next
      fix a1 b1
      assume r1: "related D ra rb a1 b1"
      show "sameOutcome (overBase D) (andThen (addDef a1 outType) (?K ra)) (andThen (addDef b1 outType) (?K rb))"
      proof (rule sameOutcome_andThen [where R = "related D ra rb"])
        show "sameOutcome (related D ra rb) (addDef a1 outType) (addDef b1 outType)"
          using sim only r1 by (rule sameOutcome_addDef)
      qed (rule tail)
    qed
    have so: "case setInput tag \<Gamma> opa path inType of
        Inl e \<Rightarrow> setInput tag \<Gamma> opb path inType = Inl e
      | Inr x \<Rightarrow> (\<exists>y. setInput tag \<Gamma> opb path inType = Inr y)"
      by (rule setInput_outcome)
    show ?thesis
    proof (cases "setInput tag \<Gamma> opa path inType")
      case (Inl e)
      with so ga gb RESTRouteSelector
      show ?thesis by (simp add: sameOutcome_def)
    next
      case (Inr x)
      with so obtain y where
        y: "setInput tag \<Gamma> opb path inType = Inr y" by auto
      from defs [of x y] ga gb Inr y RESTRouteSelector show ?thesis
        by (simp add: replacePath_pathKey)
    qed
  qed
qed

lemma possibleErrors_loop_sim:
  assumes sim: "\<And>a b t. overBase D a b \<Longrightarrow> sameOutcome (overBase D) (addDef a t) (addDef b t)"
    and only: "\<And>sw t sw'. addDef sw t = Some (Inr sw') \<Longrightarrow> onlyDefinitions sw sw'"
  shows "related D ra rb a b \<Longrightarrow>
     sameOutcome (related D ra rb)
       (possibleErrors_loop addDef \<Gamma> ra pes pm a) (possibleErrors_loop addDef \<Gamma> rb pes pm b)"
proof (induction pes arbitrary: a b pm)
  case Nil
  then show ?case by (simp add: sameOutcome_def)
next
  case (Cons pe pes)
  show ?case
  proof (cases "Indirect_Type (peMessage pe)")
    case (Inl e)
    then show ?thesis by (simp add: sameOutcome_def)
  next
    case (Inr errType)
    let ?pm = "pm(peCode pe := pm (peCode pe) @ [peItem pe])"
    let ?K = "\<lambda>r swag.
       andThen (lift (getOp swag r)) (\<lambda>op.
         possibleErrors_loop addDef \<Gamma> r pes ?pm
           (setOp swag r (RespondsWith op (peCode pe)
              (WithDescription
                 (WithSchema NewResponse (RefProperty (definitionsRef (Name \<Gamma> errType))))
                 (''Items: '' @ Join (?pm (peCode pe)) '', '')))))"
    have tail: "sameOutcome (related D ra rb) (?K ra a1) (?K rb b1)"
      if rel: "related D ra rb a1 b1" for a1 b1
    proof -
      from rel obtain oa ob where oa: "getOp a1 ra = Inr oa" and ob: "getOp b1 rb = Inr ob"
        by (auto simp: related_def getOp_def)
      have "related D ra rb (setOp a1 ra x) (setOp b1 rb y)" for x y
        using rel by (simp add: related_def overBase_def setOp_def)
      then have "sameOutcome (related D ra rb)
          (possibleErrors_loop addDef \<Gamma> ra pes ?pm (setOp a1 ra x))
          (possibleErrors_loop addDef \<Gamma> rb pes ?pm (setOp b1 rb y))" for x y
        by (rule Cons.IH)
      with oa ob show ?thesis by simp
    qed
    have "sameOutcome (related D ra rb)
        (andThen (addDef a errType) (?K ra)) (andThen (addDef b errType) (?K rb))"
    proof (rule sameOutcome_andThen [where R = "related D ra rb"])
      show "sameOutcome (related D ra rb) (addDef a errType) (addDef b errType)"
        using sim only Cons.prems by (rule sameOutcome_addDef)
    qed (rule tail)
    with Inr show ?thesis by (simp add: Let_def)
  qed
qed

lemma addOperation_sim:
  assumes "overBase D a b"
  shows "sameOutcome (overBase D)
           (addOperation fuel tag \<Gamma> a serviceName c) (addOperation fuel tag \<Gamma> b serviceName c)"
proof (cases "Indirect_Type (cInput c)")
  case (Inl e)
  then show ?thesis by (simp add: addOperation_def sameOutcome_def)
next
  case it: (Inr inType)
  show ?thesis
  proof (cases "Indirect_Type (cOutput c)")
    case (Inl e)
    with it show ?thesis by (simp add: addOperation_def sameOutcome_def)
  next
    case ot: (Inr outType)
    define op0 where "op0 = (RespondsWith (NewOperation (cName c)) 200
                    (WithSchema NewResponse (RefProperty (definitionsRef (Name \<Gamma> outType)))))
                 \<lparr>opTags := [serviceName],
                  opProduces := [''application/json''],
                  opConsumes := [''application/json'']\<rparr>"
    define a1 where "a1 = (if Paths a = None then a\<lparr>Paths := Some Map.empty\<rparr> else a)\<lparr>Store := Store a @ [op0]\<rparr>"
    define b1 where "b1 = (if Paths b = None then b\<lparr>Paths := Some Map.empty\<rparr> else b)\<lparr>Store := Store b @ [op0]\<rparr>"
    let ?ra = "length (Store a)" and ?rb = "length (Store b)"
    have rel: "related D ?ra ?rb a1 b1"
      using assms by (auto simp: related_def overBase_def a1_def b1_def defsOf_def)
    have sim: "\<And>a b t. overBase D a b \<Longrightarrow>
        sameOutcome (overBase D) (addDefinition fuel tag \<Gamma> a t) (addDefinition fuel tag \<Gamma> b t)"
      by (rule addDefinition_sim)
    have "sameOutcome (overBase D)
        (andThen (possibleErrors_loop (addDefinition fuel tag \<Gamma>) \<Gamma> ?ra (cPossibleErrors c) (\<lambda>code. []) a1)
           (selectors_loop (addDefinition fuel tag \<Gamma>) tag \<Gamma> ?ra inType outType (cSelectors c)))
        (andThen (possibleErrors_loop (addDefinition fuel tag \<Gamma>) \<Gamma> ?rb (cPossibleErrors c) (\<lambda>code. []) b1)
           (selectors_loop (addDefinition fuel tag \<Gamma>) tag \<Gamma> ?rb inType outType (cSelectors c)))"
    proof (rule sameOutcome_andThen [where R = "related D ?ra ?rb"])
      show "sameOutcome (related D ?ra ?rb)
          (possibleErrors_loop (addDefinition fuel tag \<Gamma>) \<Gamma> ?ra (cPossibleErrors c) (\<lambda>code. []) a1)
          (possibleErrors_loop (addDefinition fuel tag \<Gamma>) \<Gamma> ?rb (cPossibleErrors c) (\<lambda>code. []) b1)"
        using sim addDefinition_only rel by (rule possibleErrors_loop_sim)
    next
      fix x x'
      assume "related D ?ra ?rb x x'"
      with sim addDefinition_only
      show "sameOutcome (overBase D)
          (selectors_loop (addDefinition fuel tag \<Gamma>) tag \<Gamma> ?ra inType outType (cSelectors c) x)
          (selectors_loop (addDefinition fuel tag \<Gamma>) tag \<Gamma> ?rb inType outType (cSelectors c) x')"
        by (rule selectors_loop_sim)
    qed
    moreover have "addOperation fuel tag \<Gamma> a serviceName c
        = andThen (possibleErrors_loop (addDefinition fuel tag \<Gamma>) \<Gamma> ?ra (cPossibleErrors c) (\<lambda>code. []) a1)
           (selectors_loop (addDefinition fuel tag \<Gamma>) tag \<Gamma> ?ra inType outType (cSelectors c))"
      using it ot by (simp add: addOperation_def Let_def allocOp_def a1_def op0_def)
    moreover have "addOperation fuel tag \<Gamma> b serviceName c
        = andThen (possibleErrors_loop (addDefinition fuel tag \<Gamma>) \<Gamma> ?rb (cPossibleErrors c) (\<lambda>code. []) b1)
           (selectors_loop (addDefinition fuel tag \<Gamma>) tag \<Gamma> ?rb inType outType (cSelectors c))"
      using it ot by (simp add: addOperation_def Let_def allocOp_def b1_def op0_def)
    ultimately show ?thesis
      by simp
  qed
qed

lemma contracts_loop_sim:
  "overBase D a b \<Longrightarrow>
     sameOutcome (overBase D)
       (contracts_loop fuel tag \<Gamma> serviceName cs a) (contracts_loop fuel tag \<Gamma> serviceName cs b)"
proof (induction cs arbitrary: a b)
  case Nil
  then show ?case by (simp add: sameOutcome_def)
next
  case (Cons c cs)
  show ?case
    unfolding contracts_loop.simps
    by (rule sameOutcome_andThen [OF addOperation_sim [OF Cons.prems]]) (rule Cons.IH)
qed

lemma services_loop_sim:
  "overBase D a b \<Longrightarrow>
     sameOutcome (overBase D) (services_loop fuel tag \<Gamma> svcs a) (services_loop fuel tag \<Gamma> svcs b)"
proof (induction svcs arbitrary: a b)
  case Nil
  then show ?case by (simp add: sameOutcome_def)
next
  case (Cons sv svcs)
  have "overBase D (addTag a sv) (addTag b sv)"
    using Cons.prems by (simp add: overBase_def addTag_def)
  then show ?case
    unfolding services_loop.simps
    by (rule sameOutcome_andThen [OF contracts_loop_sim]) (rule Cons.IH)
qed

lemma mapItem_setMethod:
  "f x = Some y \<Longrightarrow> mapItem f (setMethod m x item) = setMethod m y (mapItem f item)"
  by (simp add: mapItem_def setMethod_def)

lemma mapItem_empty [simp]: "mapItem f emptyPathItem = emptyPathItem"
  by (simp add: mapItem_def emptyPathItem_def)

lemma selItems_map:
  assumes "f x = Some y"
  shows "(\<lambda>p. map_option (mapItem f) (selItems sels x items p))
           = selItems sels y (\<lambda>p. map_option (mapItem f) (items p))"
proof (induction sels arbitrary: items)
  case Nil
  show ?case by simp
next
  case (Cons sel sels)
  show ?case
  proof (cases sel)
    case OtherSelector
    with Cons show ?thesis by simp
  next
    case (RESTRouteSelector meth path)
    let ?k = "pathKey path"
    let ?v = "setMethod (ToUpper meth) x (case items ?k of None \<Rightarrow> emptyPathItem | Some i \<Rightarrow> i)"
    let ?w = "setMethod (ToUpper meth) y
                (case map_option (mapItem f) (items ?k) of None \<Rightarrow> emptyPathItem | Some i \<Rightarrow> i)"
    have v: "mapItem f ?v = ?w"
      using assms by (cases "items ?k") (simp_all add: mapItem_setMethod)
    have "(\<lambda>p. map_option (mapItem f) ((items(?k \<mapsto> ?v)) p))
            = (\<lambda>p. map_option (mapItem f) (items p))(?k \<mapsto> ?w)"
      by (rule ext) (simp add: v)
    moreover have "(\<lambda>p. map_option (mapItem f) (selItems sels x (items(?k \<mapsto> ?v)) p))
            = selItems sels y (\<lambda>p. map_option (mapItem f) ((items(?k \<mapsto> ?v)) p))"
      by (rule Cons.IH)
    ultimately show ?thesis
      using RESTRouteSelector by simp
  qed
qed

lemma mapItem_valid:
  "validItem (length st) item \<Longrightarrow> mapItem (resolveRef (st @ [op])) item = mapItem (resolveRef st) item"
  by (cases "Get item"; cases "Put item"; cases "Post item"; cases "Delete item"; cases "Patch item")
    (auto simp: mapItem_def validItem_def resolveRef_def nth_append)

lemma validItem_setMethod:
  "validItem (Suc n) item \<Longrightarrow> validItem (Suc n) (setMethod m n item)"
  by (auto simp: validItem_def setMethod_def)

lemma validItem_mono: "validItem n item \<Longrightarrow> validItem (Suc n) item"
  by (auto simp: validItem_def less_Suc_eq)

lemma validItem_empty [simp]: "validItem n emptyPathItem"
  by (simp add: validItem_def emptyPathItem_def)

lemma selItems_valid:
  "(\<And>p item. items p = Some item \<Longrightarrow> validItem (Suc n) item)
     \<Longrightarrow> selItems sels n items p = Some item \<Longrightarrow> validItem (Suc n) item"
proof (induction sels arbitrary: items)
  case Nil
  then show ?case by simp
next
  case (Cons sel sels)
  show ?case
  proof (cases sel)
    case OtherSelector
    with Cons.prems(2) have "selItems sels n items p = Some item" by simp
    with Cons.prems(1) show ?thesis
      by (rule Cons.IH)
  next
    case (RESTRouteSelector meth path)
    let ?k = "pathKey path"
    let ?v = "setMethod (ToUpper meth) n (case items ?k of None \<Rightarrow> emptyPathItem | Some i \<Rightarrow> i)"
    have "validItem (Suc n) ?v"
      using Cons.prems(1) by (cases "items ?k") (simp_all add: validItem_setMethod)
    then have ok: "\<And>q item. (items(?k \<mapsto> ?v)) q = Some item \<Longrightarrow> validItem (Suc n) item"
      using Cons.prems(1) by (auto split: if_splits)
    have "selItems sels n (items(?k \<mapsto> ?v)) p = Some item"
      using Cons.prems(2) RESTRouteSelector by simp
    with ok show ?thesis
      by (rule Cons.IH)
  qed
qed

lemma addOperation_view:
  assumes "addOperation fuel tag \<Gamma> a serviceName c = Some (Inr a')" and "refsValid a"
  shows "viewItems a' = selItems (cSelectors c) (contractOp tag \<Gamma> serviceName c) (viewItems a)
     \<and> refsValid a' \<and> Paths a' \<noteq> None \<and> sameFrame a a'"
proof -
  note e = addOperation_effect [OF assms(1)]
  let ?n = "length (Store a)"
  let ?op = "contractOp tag \<Gamma> serviceName c"
  let ?f = "resolveRef (Store a @ [?op])"
  have f: "?f ?n = Some ?op"
    by (simp add: resolveRef_def)
  have items': "itemsOf a' = selItems (cSelectors c) ?n (itemsOf a)"
    using e by (simp add: itemsOf_def)
  have old: "(\<lambda>p. map_option (mapItem ?f) (itemsOf a p)) = viewItems a"
  proof (rule ext)
    fix p
    show "map_option (mapItem ?f) (itemsOf a p) = viewItems a p"
    proof (cases "itemsOf a p")
      case None
      then show ?thesis by (simp add: viewItems_def)
    next
      case (Some item)
      with assms(2) have "validItem ?n item"
        by (simp add: refsValid_def)
      with Some show ?thesis
        by (simp add: viewItems_def mapItem_valid)
    qed
  qed
  have "viewItems a' = (\<lambda>p. map_option (mapItem ?f) (selItems (cSelectors c) ?n (itemsOf a) p))"
    using e by (simp add: viewItems_def items')
  also have "\<dots> = selItems (cSelectors c) ?op (\<lambda>p. map_option (mapItem ?f) (itemsOf a p))"
    using f by (rule selItems_map)
  finally have 1: "viewItems a' = selItems (cSelectors c) ?op (viewItems a)"
    by (simp add: old)
  have 2: "refsValid a'"
    unfolding refsValid_def items'
  proof (intro allI impI)
    fix p item
    assume "selItems (cSelectors c) ?n (itemsOf a) p = Some item"
    moreover have "\<And>q i. itemsOf a q = Some i \<Longrightarrow> validItem (Suc ?n) i"
      using assms(2) by (auto simp: refsValid_def intro: validItem_mono)
    ultimately have "validItem (Suc ?n) item"
      by (rule selItems_valid [rotated])
    with e show "validItem (length (Store a')) item" by simp
  qed
  from 1 2 e show ?thesis by simp
qed

lemma contracts_loop_view:
  "contracts_loop fuel tag \<Gamma> serviceName cs a = Some (Inr a') \<Longrightarrow> refsValid a
     \<Longrightarrow> viewItems a' = contractsView tag \<Gamma> serviceName cs (viewItems a)
       \<and> refsValid a' \<and> sameFrame a a'
       \<and> (if cs = [] then Paths a' = Paths a else Paths a' \<noteq> None)"
proof (induction cs arbitrary: a)
  case Nil
  then show ?case by (simp add: sameFrame_def)
next
  case (Cons c cs)
  from Cons.prems(1) obtain a1 where
    a1: "addOperation fuel tag \<Gamma> a serviceName c = Some (Inr a1)"
    and rest: "contracts_loop fuel tag \<Gamma> serviceName cs a1 = Some (Inr a')"
    by (auto simp: andThen_eq_Inr)
  note v1 = addOperation_view [OF a1 Cons.prems(2)]
  from v1 have r1: "refsValid a1" by simp
  note v2 = Cons.IH [OF rest r1]
  from v1 v2 show ?case
    by (auto simp: sameFrame_def split: if_splits)
qed

lemma services_loop_view:
  "services_loop fuel tag \<Gamma> svcs a = Some (Inr a') \<Longrightarrow> refsValid a
     \<Longrightarrow> viewItems a' = servicesView tag \<Gamma> svcs (viewItems a)
       \<and> refsValid a'
       \<and> Tags a' = Tags a @ map (\<lambda>sv. NewTag (svcName sv) []) svcs
       \<and> Swagger a' = Swagger a \<and> Info a' = Info a \<and> Schemes a' = Schemes a
       \<and> (if \<forall>sv \<in> set svcs. svcContracts sv = [] then Paths a' = Paths a else Paths a' \<noteq> None)"
proof (induction svcs arbitrary: a)
  case Nil
  then show ?case by simp
next
  case (Cons sv svcs)
  from Cons.prems(1) obtain a1 where
    a1: "contracts_loop fuel tag \<Gamma> (svcName sv) (svcContracts sv) (addTag a sv) = Some (Inr a1)"
    and rest: "services_loop fuel tag \<Gamma> svcs a1 = Some (Inr a')"
    by (auto simp: andThen_eq_Inr)
  have t: "refsValid (addTag a sv)" "viewItems (addTag a sv) = viewItems a"
    "Paths (addTag a sv) = Paths a"
    using Cons.prems(2) by (simp_all add: refsValid_def addTag_def itemsOf_def viewItems_def)
  note v1 = contracts_loop_view [OF a1 t(1)]
  from v1 have r1: "refsValid a1" by simp
  note v2 = Cons.IH [OF rest r1]
  have some: "Paths a' \<noteq> None" if "Paths a1 \<noteq> None"
    using v2 that by (auto split: if_splits)
  from v1 v2 t(2,3) some show ?case
    by (auto simp: sameFrame_def addTag_def split: if_splits)
qed

lemma overItem_empty [simp]: "overItem w emptyPathItem = w"
  by (cases w) (auto simp: overItem_def emptyPathItem_def split: option.splits)

lemma overItem_assoc: "overItem g (overItem w i) = overItem (overItem g w) i"
  by (auto simp: overItem_def split: option.splits)

lemma overItem_idem [simp]: "overItem w (overItem w i) = overItem w i"
  by (auto simp: overItem_def split: option.splits)

lemma overItem_self [simp]: "overItem w w = w"
  by (cases w) (auto simp: overItem_def split: option.splits)

lemma overItem_setMethod: "overItem (setMethod m x emptyPathItem) i = setMethod m x i"
  by (cases i) (simp add: overItem_def setMethod_def emptyPathItem_def)

lemma applyW_empty [simp]: "applyW Map.empty v = v"
  by (simp add: applyW_def)

lemma applyW_assoc: "applyW G (applyW W v) = applyW (applyW G W) v"
proof (rule ext)
  fix k
  show "applyW G (applyW W v) k = applyW (applyW G W) v k"
    by (cases "G k"; cases "W k"; cases "v k") (simp_all add: applyW_def overItem_assoc)
qed

lemma applyW_idem: "applyW W (applyW W v) = applyW W v"
proof (rule ext)
  fix k
  show "applyW W (applyW W v) k = applyW W v k"
    by (cases "W k"; cases "v k") (simp_all add: applyW_def)
qed

lemma isOverlay_id: "isOverlay (\<lambda>v. v)"
  by (simp add: isOverlay_def)

lemma isOverlay_comp:
  assumes "isOverlay F" and "isOverlay G"
  shows "isOverlay (\<lambda>v. G (F v))"
  unfolding isOverlay_def
proof
  fix v
  have "G (F v) = applyW (G Map.empty) (applyW (F Map.empty) v)"
    using assms by (metis isOverlay_def)
  also have "\<dots> = applyW (applyW (G Map.empty) (F Map.empty)) v"
    by (rule applyW_assoc)
  also have "applyW (G Map.empty) (F Map.empty) = G (F Map.empty)"
    using assms(2) by (metis isOverlay_def)
  finally show "G (F v) = applyW (G (F Map.empty)) v" .
qed

lemma isOverlay_idem: "isOverlay F \<Longrightarrow> F (F v) = F v"
  by (metis isOverlay_def applyW_idem)

lemma isOverlay_step:
  "isOverlay (\<lambda>v. v(k \<mapsto> setMethod m x (case v k of None \<Rightarrow> emptyPathItem | Some i \<Rightarrow> i)))"
  unfolding isOverlay_def
proof
  fix v :: "'a \<rightharpoonup> 'b path_item"
  show "v(k \<mapsto> setMethod m x (case v k of None \<Rightarrow> emptyPathItem | Some i \<Rightarrow> i))
          = applyW (Map.empty(k \<mapsto> setMethod m x (case Map.empty k of None \<Rightarrow> emptyPathItem | Some i \<Rightarrow> i))) v"
    by (rule ext) (simp add: applyW_def overItem_setMethod)
qed

lemma isOverlay_selItems: "isOverlay (selItems sels x)"
proof (induction sels)
  case Nil
  have "selItems [] x = (\<lambda>v. v)" by (rule ext) simp
  then show ?case by (simp add: isOverlay_id)
next
  case (Cons sel sels)
  show ?case
  proof (cases sel)
    case OtherSelector
    then have "selItems (sel # sels) x = selItems sels x" by (intro ext) simp
    with Cons show ?thesis by simp
  next
    case (RESTRouteSelector meth path)
    let ?step = "\<lambda>v. v(pathKey path \<mapsto>
       setMethod (ToUpper meth) x (case v (pathKey path) of None \<Rightarrow> emptyPathItem | Some i \<Rightarrow> i))"
    have "selItems (sel # sels) x = (\<lambda>v. selItems sels x (?step v))"
      using RESTRouteSelector by (intro ext) simp
    moreover have "isOverlay (\<lambda>v. selItems sels x (?step v))"
      using isOverlay_step Cons by (rule isOverlay_comp)
    ultimately show ?thesis by simp
  qed
qed

lemma isOverlay_contractsView: "isOverlay (contractsView tag \<Gamma> serviceName cs)"
proof (induction cs)
  case Nil
  have "contractsView tag \<Gamma> serviceName [] = (\<lambda>v. v)" by (rule ext) simp
  then show ?case by (simp add: isOverlay_id)
next
  case (Cons c cs)
  have "contractsView tag \<Gamma> serviceName (c # cs)
          = (\<lambda>v. contractsView tag \<Gamma> serviceName cs
                    (selItems (cSelectors c) (contractOp tag \<Gamma> serviceName c) v))"
    by (intro ext) simp
  moreover have "isOverlay (\<lambda>v. contractsView tag \<Gamma> serviceName cs
                    (selItems (cSelectors c) (contractOp tag \<Gamma> serviceName c) v))"
    using isOverlay_selItems Cons by (rule isOverlay_comp)
  ultimately show ?case by simp
qed

lemma isOverlay_servicesView: "isOverlay (servicesView tag \<Gamma> svcs)"
proof (induction svcs)
  case Nil
  have "servicesView tag \<Gamma> [] = (\<lambda>v. v)" by (rule ext) simp
  then show ?case by (simp add: isOverlay_id)
next
  case (Cons sv svcs)
  have "servicesView tag \<Gamma> (sv # svcs)
          = (\<lambda>v. servicesView tag \<Gamma> svcs (contractsView tag \<Gamma> (svcName sv) (svcContracts sv) v))"
    by (intro ext) simp
  moreover have "isOverlay (\<lambda>v. servicesView tag \<Gamma> svcs
                    (contractsView tag \<Gamma> (svcName sv) (svcContracts sv) v))"
    using isOverlay_contractsView Cons by (rule isOverlay_comp)
  ultimately show ?case by simp
qed

lemma servicesView_idem:
  "servicesView tag \<Gamma> svcs (servicesView tag \<Gamma> svcs v) = servicesView tag \<Gamma> svcs v"
  using isOverlay_servicesView by (rule isOverlay_idem)

lemma services_loop_again_defs:
  assumes "services_loop fuel tag \<Gamma> svcs a = Some (Inr a1)"
  shows "\<exists>a2. services_loop fuel tag \<Gamma> svcs a1 = Some (Inr a2) \<and> defsOf a2 = defsOf a1"
proof -
  let ?E = "a\<lparr>Definitions := Some Map.empty\<rparr>"
  have "sameOutcome (overBase (defsOf a))
          (services_loop fuel tag \<Gamma> svcs ?E) (services_loop fuel tag \<Gamma> svcs a)"
    using overBase_empty by (rule services_loop_sim)
  from sameOutcome_InrD' [OF this assms] obtain e1 where
    e: "services_loop fuel tag \<Gamma> svcs ?E = Some (Inr e1)" and d1: "overBase (defsOf a) e1 a1"
    by blast
  have "overBase (defsOf a1) ?E a1"
    by (simp add: overBase_def defsOf_def)
  then have "sameOutcome (overBase (defsOf a1))
          (services_loop fuel tag \<Gamma> svcs ?E) (services_loop fuel tag \<Gamma> svcs a1)"
    by (rule services_loop_sim)
  from sameOutcome_InrD [OF this e] obtain a2 where
    a2: "services_loop fuel tag \<Gamma> svcs a1 = Some (Inr a2)" and d2: "overBase (defsOf a1) e1 a2"
    by blast
  have "defsOf a ++ defsOf e1 ++ defsOf e1 = defsOf a ++ defsOf e1"
    by (rule ext) (auto simp: map_add_def split: option.splits)
  with d1 d2 have "defsOf a2 = defsOf a1"
    by (simp add: overBase_def)
  with a2 show ?thesis by blast
qed

lemma WriteTo_after_loop:
  assumes "services_loop fuel (tagName sg) \<Gamma> services (sg_s sg) = Some (Inr swag)"
  shows "\<exists>err w'. WriteTo marshal write fuel \<Gamma> sg w services = Some (Inr (err, w', sg\<lparr>sg_s := swag\<rparr>))"
proof (cases "marshal swag")
  case (Inl e)
  with assms show ?thesis by (simp add: WriteTo_def)
next
  case (Inr js)
  with assms show ?thesis
    by (cases "write w js") (simp add: WriteTo_def)
qed

lemma services_loop_again:
  assumes run: "services_loop fuel tag \<Gamma> svcs a = Some (Inr a1)" and valid: "refsValid a"
  shows "\<exists>a2. services_loop fuel tag \<Gamma> svcs a1 = Some (Inr a2)
     \<and> Tags a1 = Tags a @ map (\<lambda>sv. NewTag (svcName sv) []) svcs
     \<and> Tags a2 = Tags a1 @ map (\<lambda>sv. NewTag (svcName sv) []) svcs
     \<and> defsOf a2 = defsOf a1 \<and> pathsView a2 = pathsView a1
     \<and> Swagger a2 = Swagger a1 \<and> Info a2 = Info a1 \<and> Schemes a2 = Schemes a1
     \<and> refsValid a2"
proof -
  from services_loop_again_defs [OF run] obtain a2 where
    run2: "services_loop fuel tag \<Gamma> svcs a1 = Some (Inr a2)" and defs: "defsOf a2 = defsOf a1"
    by blast
  note v1 = services_loop_view [OF run valid]
  from v1 have valid1: "refsValid a1" by simp
  note v2 = services_loop_view [OF run2 valid1]
  have "viewItems a2 = servicesView tag \<Gamma> svcs (servicesView tag \<Gamma> svcs (viewItems a))"
    using v1 v2 by simp
  then have items: "viewItems a2 = viewItems a1"
    using v1 by (simp add: servicesView_idem)
  have paths: "pathsView a2 = pathsView a1"
  proof (cases "\<forall>sv \<in> set svcs. svcContracts sv = []")
    case True
    with v2 have "Paths a2 = Paths a1" by simp
    with items show ?thesis by (cases "Paths a1") (simp_all add: pathsView_def)
  next
    case False
    with v1 v2 have "Paths a1 \<noteq> None" "Paths a2 \<noteq> None" by simp_all
    with items show ?thesis by (auto simp: pathsView_def)
  qed
  from run2 v1 v2 defs paths show ?thesis by simp
qed

text \<open>
  C6 (amended). The generator keeps its document from one invocation to the next: the
  second invocation of \<^verbatim>\<open>WriteTo\<close> works on the document the first one has left. When
  the first invocation returns, a second one with the same services returns too, and
  the document it encodes has the definitions of the first, the paths of the first with
  the same operations under the same methods, and the same version, info and schemes;
  its list of tags is that of the first followed, once more, by one tag for each
  service. (The path items of the generator's document point to operations it has
  allocated.)
\<close>

theorem WriteTo_again_same_but_tags:
  assumes "refsValid (sg_s sg)"
    and "WriteTo marshal write fuel \<Gamma> sg w services = Some (Inr (err1, w1, sg1))"
  shows "\<exists>err2 w2 sg2. WriteTo marshal write fuel \<Gamma> sg1 w' services = Some (Inr (err2, w2, sg2))
     \<and> Tags (sg_s sg1) = Tags (sg_s sg) @ map (\<lambda>sv. NewTag (svcName sv) []) services
     \<and> Tags (sg_s sg2) = Tags (sg_s sg1) @ map (\<lambda>sv. NewTag (svcName sv) []) services
     \<and> defsOf (sg_s sg2) = defsOf (sg_s sg1)
     \<and> pathsView (sg_s sg2) = pathsView (sg_s sg1)
     \<and> Swagger (sg_s sg2) = Swagger (sg_s sg1) \<and> Info (sg_s sg2) = Info (sg_s sg1)
     \<and> Schemes (sg_s sg2) = Schemes (sg_s sg1)
     \<and> tagName sg2 = tagName sg1 \<and> refsValid (sg_s sg2)"
proof -
  from WriteTo_returns [OF assms(2)] obtain swag1 where
    run: "services_loop fuel (tagName sg) \<Gamma> services (sg_s sg) = Some (Inr swag1)"
    and sg1: "sg1 = sg\<lparr>sg_s := swag1\<rparr>"
    by blast
  from services_loop_again [OF run assms(1)] obtain swag2 where
    run2: "services_loop fuel (tagName sg) \<Gamma> services swag1 = Some (Inr swag2)"
    and same: "Tags swag1 = Tags (sg_s sg) @ map (\<lambda>sv. NewTag (svcName sv) []) services"
      "Tags swag2 = Tags swag1 @ map (\<lambda>sv. NewTag (svcName sv) []) services"
      "defsOf swag2 = defsOf swag1" "pathsView swag2 = pathsView swag1"
      "Swagger swag2 = Swagger swag1" "Info swag2 = Info swag1" "Schemes swag2 = Schemes swag1"
      "refsValid swag2"
    by blast
  from run2 sg1 have "services_loop fuel (tagName sg1) \<Gamma> services (sg_s sg1) = Some (Inr swag2)"
    by simp
  from WriteTo_after_loop [OF this, of marshal "write" w'] obtain err2 w2 where
    "WriteTo marshal write fuel \<Gamma> sg1 w' services = Some (Inr (err2, w2, sg1\<lparr>sg_s := swag2\<rparr>))"
    by blast
  with same sg1 show ?thesis by simp
qed

theorem WriteTo_again_same_but_tags_witness:
  "refsValid (sg_s (NewSwagger ''t'' ''v'' []))
   \<and> (\<exists>err1 w1 sg1.
        WriteTo tagsMarshal appendWrite 1 emptyTypes (NewSwagger ''t'' ''v'' []) [] [itemService]
          = Some (Inr (err1, w1, sg1))
        \<and> (\<exists>err2 w2 sg2.
             WriteTo tagsMarshal appendWrite 1 emptyTypes sg1 [] [itemService] = Some (Inr (err2, w2, sg2))
             \<and> Tags (sg_s sg2) = Tags (sg_s sg1) @ [NewTag ''svc'' []]
             \<and> defsOf (sg_s sg2) = defsOf (sg_s sg1)
             \<and> pathsView (sg_s sg2) = pathsView (sg_s sg1)))"
proof -
  let ?sg = "NewSwagger ''t'' ''v'' []"
  have valid: "refsValid (sg_s ?sg)"
    by (simp add: refsValid_def itemsOf_def NewSwagger_def)
  have "\<exists>swag. services_loop 1 (tagName ?sg) emptyTypes [itemService] (sg_s ?sg) = Some (Inr swag)"
    by (simp add: itemService_def addTag_def addOperation_def postGetContract_def NewSwagger_def
        allocOp_def Let_def getOp_def setOp_def setInput_def emptyTypes_def addDefinition_body_def
        ToUpper_GET replacePath_item methodSwitch_def)
  then obtain swag where
    "services_loop 1 (tagName ?sg) emptyTypes [itemService] (sg_s ?sg) = Some (Inr swag)"
    by blast
  from WriteTo_after_loop [OF this, of tagsMarshal appendWrite "[]"] obtain err1 w1 where
    first: "WriteTo tagsMarshal appendWrite 1 emptyTypes ?sg [] [itemService]
              = Some (Inr (err1, w1, ?sg\<lparr>sg_s := swag\<rparr>))"
    by blast
  have name: "svcName itemService = ''svc''"
    by (simp add: itemService_def)
  from WriteTo_again_same_but_tags [OF valid first, of "[]"]
  have "\<exists>err2 w2 sg2.
          WriteTo tagsMarshal appendWrite 1 emptyTypes (?sg\<lparr>sg_s := swag\<rparr>) [] [itemService]
            = Some (Inr (err2, w2, sg2))
          \<and> Tags (sg_s sg2) = Tags (sg_s (?sg\<lparr>sg_s := swag\<rparr>)) @ [NewTag ''svc'' []]
          \<and> defsOf (sg_s sg2) = defsOf (sg_s (?sg\<lparr>sg_s := swag\<rparr>))
          \<and> pathsView (sg_s sg2) = pathsView (sg_s (?sg\<lparr>sg_s := swag\<rparr>))"
    by (elim exE conjE, intro exI conjI) (simp_all add: name)
  with first valid show ?thesis by blast
qed

text \<open>
  C6 as stated fails. A generator with one service, invoked twice in succession with
  that service: the document of the second invocation has the tag of the service
  twice, and the encoder is given another document than the first time.
\<close>

theorem WriteTo_twice_counterexample:
  "WriteTo tagsMarshal appendWrite 0 emptyTypes (NewSwagger ''t'' ''v'' []) [] [emptyService]
     = Some (Inr (None, [''svc''],
         (NewSwagger ''t'' ''v'' [])\<lparr>sg_s := (sg_s (NewSwagger ''t'' ''v'' []))\<lparr>Tags := [NewTag ''svc'' []]\<rparr>\<rparr>))
   \<and> WriteTo tagsMarshal appendWrite 0 emptyTypes
       ((NewSwagger ''t'' ''v'' [])\<lparr>sg_s := (sg_s (NewSwagger ''t'' ''v'' []))\<lparr>Tags := [NewTag ''svc'' []]\<rparr>\<rparr>)
       [] [emptyService]
     = Some (Inr (None, [''svc,svc''],
         (NewSwagger ''t'' ''v'' [])\<lparr>sg_s := (sg_s (NewSwagger ''t'' ''v'' []))
            \<lparr>Tags := [NewTag ''svc'' [], NewTag ''svc'' []]\<rparr>\<rparr>))"
  by (simp add: WriteTo_def tagsMarshal_def appendWrite_def emptyService_def addTag_def
      NewSwagger_def NewTag_def)

end
